theory Spec2Isabelle
  imports Main "HOL-Library.Word" "HOL-Library.Multiset"
begin

unbundle bit_operations_syntax

section \<open>The daemon's socket: connections and framed messages\<close>

text \<open>
  A connection (Go's \<open>net.Conn\<close>) is modelled by the bytes the peer sends before it
  closes its side (\<open>incoming\<close>), the bytes the daemon has written (\<open>written\<close>), whether
  a write on it succeeds (\<open>writable\<close>) and whether the daemon has closed it.
\<close>

type_synonym byte = "8 word"

record conn =
  incoming :: "byte list"
  written :: "byte list"
  writable :: bool
  closed :: bool

datatype error =
    FailedReadParams
  | FailedReadBody
  | SocketWriteFailed
  | IncorrectArgumentsCount
  | PgdataNotSet
  | UnexpectedMessageType byte
  | ArchiveNonExistenceError
  | UnknownStorage string
  | OpenCacheFile
  | LockCacheFile
  | ReadCacheFile
  | UnmarshalCacheFile
  | MarshalCacheFile
  | TruncateCacheFile
  | WriteCacheFile
  | NilDereference
  | External string
  | Wrapped string error

text \<open>
  \<open>io.ReadFull(c, buf)\<close> with \<open>len(buf) = n\<close>: exactly \<open>n\<close> bytes, or an error when the
  stream ends before (the bytes read until then are consumed).
\<close>

definition ReadFull :: "conn \<Rightarrow> nat \<Rightarrow> byte list option \<times> conn" where
  "ReadFull c n =
     (if n \<le> length (incoming c)
      then (Some (take n (incoming c)), c\<lparr>incoming := drop n (incoming c)\<rparr>)
      else (None, c\<lparr>incoming := []\<rparr>))"

text \<open>\<open>c.Write(bs)\<close>: appends to what the peer receives, or fails and writes nothing.\<close>

definition Write :: "conn \<Rightarrow> byte list \<Rightarrow> bool \<times> conn" where
  "Write c bs = (if writable c then (True, c\<lparr>written := written c @ bs\<rparr>) else (False, c))"

text \<open>\<open>binary.Read(l, binary.BigEndian, &messageLength)\<close> on the two length bytes.\<close>

definition be_uint16 :: "byte \<Rightarrow> byte \<Rightarrow> 16 word" where
  "be_uint16 hi lo = push_bit 8 (ucast hi) OR ucast lo"

text \<open>
  \<open>SocketMessageReader.Next\<close>: three header bytes (type, length high, length low), then
  a body of \<open>messageLength - 3\<close> bytes, the subtraction being the one of \<open>uint16\<close>.
\<close>

definition Next :: "conn \<Rightarrow> (error + byte \<times> byte list) \<times> conn" where
  "Next c =
     (case ReadFull c 3 of
        (None, c1) \<Rightarrow> (Inl FailedReadParams, c1)
      | (Some messageParameters, c1) \<Rightarrow>
          (let messageType = messageParameters ! 0;
               messageLength = be_uint16 (messageParameters ! 1) (messageParameters ! 2)
           in case ReadFull c1 (unat (messageLength - 3)) of
                (None, c2) \<Rightarrow> (Inl FailedReadBody, c2)
              | (Some messageBody, c2) \<Rightarrow> (Inr (messageType, messageBody), c2)))"

subsection \<open>Message types and replies\<close>

text \<open>
  Modelled from the spec: the message types of the \<open>daemon\<close> package, whose file is
  not among the sources. The spec gives each as one byte (\<open>Check=0x43\<close>,
  \<open>WalPush=0x46\<close>, \<open>WalFetch=0x47\<close>, \<open>Ok=0x4F\<close>, \<open>ArchiveNonExistence=0x4E\<close>,
  \<open>Error=0x45\<close>) and a reply as that single byte.
\<close>

definition CheckType :: byte where "CheckType = 0x43"
definition WalPushType :: byte where "WalPushType = 0x46"
definition WalFetchType :: byte where "WalFetchType = 0x47"
definition OkType :: byte where "OkType = 0x4F"
definition ArchiveNonExistenceType :: byte where "ArchiveNonExistenceType = 0x4E"
definition ErrorType :: byte where "ErrorType = 0x45"

definition ToBytes :: "byte \<Rightarrow> byte list" where
  "ToBytes t = [t]"

text \<open>\<open>string(messageBody)\<close>: the bytes of the body as a string.\<close>

definition string_of_bytes :: "byte list \<Rightarrow> string" where
  "string_of_bytes bs = map (\<lambda>b. char_of (unat b)) bs"

subsection \<open>Go's \<open>path\<close> and \<open>strings\<close> helpers\<close>

text \<open>
  \<open>path.Clean\<close> works on the components between slashes: empty components and \<open>.\<close>
  vanish, \<open>..\<close> removes the component before it (or stays, in a path that is not
  rooted and has nothing left to remove). \<open>path.Join\<close> joins the non-empty elements
  with slashes and cleans the result; joining nothing gives the empty string.
\<close>

fun split_slash :: "string \<Rightarrow> string list" where
  "split_slash [] = [[]]"
| "split_slash (c # cs) =
     (if c = CHR ''/'' then [] # split_slash cs
      else (case split_slash cs of [] \<Rightarrow> [[c]] | w # ws \<Rightarrow> (c # w) # ws))"

fun join_slash :: "string list \<Rightarrow> string" where
  "join_slash [] = []"
| "join_slash [w] = w"
| "join_slash (w # ws) = w @ ''/'' @ join_slash ws"

definition clean_step :: "bool \<Rightarrow> string list \<Rightarrow> string \<Rightarrow> string list" where
  "clean_step rooted out part =
     (if part = [] then out
      else if part = ''.'' then out
      else if part = ''..'' then
        (if out = [] then (if rooted then out else [''..''])
         else if last out = ''..'' then out @ [''..'']
         else butlast out)
      else out @ [part])"

definition path_Clean :: "string \<Rightarrow> string" where
  "path_Clean p =
     (if p = [] then ''.''
      else
        (let rooted = (hd p = CHR ''/'');
             out = (if rooted then ''/'' else []) @
                   join_slash (foldl (clean_step rooted) [] (split_slash p))
         in if out = [] then ''.'' else out))"

definition path_Join :: "string list \<Rightarrow> string" where
  "path_Join elem =
     (let used = filter (\<lambda>e. e \<noteq> []) elem
      in if used = [] then [] else path_Clean (join_slash used))"






section \<open>The multi-storage configuration\<close>

text \<open>
  \<open>multistorage.Config\<close> and the storage \<open>multistorage.NewStorage\<close> builds from it.
  A configured storage is known by its name here; the settings and the functions of
  other packages that \<open>ConfigureMultiStorage\<close> and the handlers call are the fields
  of \<open>env\<close>, each with the result it returns.
\<close>

record Config =
  AliveChecks :: bool
  StatusCacheTTL :: int
  AliveCheckTimeout :: int
  CheckWrite :: bool
  AliveCheckWriteBytes :: nat

record Storage =
  config :: Config
  primary :: string
  failovers :: "string list"

record env =
  ConfigureStorage :: "error + string"
  ConfigureFailoverStorages :: "error + string list"
  PgFailoverStoragesCheck :: "(error + bool) option"
  PgFailoverStorageCacheLifetime :: "error + int"
  PgFailoverStoragesCheckTimeout :: "error + int"
  PgFailoverStoragesCheckSize :: nat
  PgDataSetting :: "string option"
  PgDaemonWALUploadTimeout :: "error + int"
  PrepareMultiStorageWalUploader :: "Storage \<Rightarrow> error option"
  PrepareMultiStorageFolderReader :: "Storage \<Rightarrow> error option"
  HandleWALPush :: "Storage \<Rightarrow> int \<Rightarrow> string \<Rightarrow> error option"
  HandleWALFetch :: "Storage \<Rightarrow> string \<Rightarrow> string \<Rightarrow> error option"
  BytesToArgs :: "byte list \<Rightarrow> error + string list"

text \<open>\<open>&multistorage.Config{}\<close>: every field at its zero value.\<close>

definition zeroConfig :: Config where
  "zeroConfig = \<lparr>AliveChecks = False, StatusCacheTTL = 0, AliveCheckTimeout = 0,
                 CheckWrite = False, AliveCheckWriteBytes = 0\<rparr>"

definition NewStorage :: "Config \<Rightarrow> string \<Rightarrow> string list \<Rightarrow> Storage" where
  "NewStorage cfg p fs = \<lparr>config = cfg, primary = p, failovers = fs\<rparr>"

text \<open>\<open>internal.GetBoolSettingDefault\<close>: the default when the setting is not set.\<close>

definition GetBoolSettingDefault :: "(error + bool) option \<Rightarrow> bool \<Rightarrow> error + bool" where
  "GetBoolSettingDefault setting dflt = (case setting of None \<Rightarrow> Inr dflt | Some r \<Rightarrow> r)"

definition ConfigureMultiStorage :: "env \<Rightarrow> bool \<Rightarrow> error + Storage" where
  "ConfigureMultiStorage e checkWrite =
     (case ConfigureStorage e of
        Inl err \<Rightarrow> Inl (Wrapped ''configure primary storage'' err)
      | Inr prim \<Rightarrow>
     (case ConfigureFailoverStorages e of
        Inl err \<Rightarrow> Inl (Wrapped ''configure failover storages'' err)
      | Inr fos \<Rightarrow>
     (let aliveChecksDefault = (length fos > 0) in
      case GetBoolSettingDefault (PgFailoverStoragesCheck e) aliveChecksDefault of
        Inl err \<Rightarrow> Inl (Wrapped ''get failover storage check setting'' err)
      | Inr aliveChecks \<Rightarrow>
          if aliveChecks then
            (case PgFailoverStorageCacheLifetime e of
               Inl err \<Rightarrow> Inl (Wrapped ''get failover storage cache lifetime setting'' err)
             | Inr lifetime \<Rightarrow>
            (case PgFailoverStoragesCheckTimeout e of
               Inl err \<Rightarrow> Inl (Wrapped ''get failover storage check timeout setting'' err)
             | Inr timeout \<Rightarrow>
                 Inr (NewStorage
                   (zeroConfig\<lparr>AliveChecks := True, StatusCacheTTL := lifetime,
                      AliveCheckTimeout := timeout, CheckWrite := checkWrite,
                      AliveCheckWriteBytes :=
                        (if checkWrite then PgFailoverStoragesCheckSize e else 0)\<rparr>)
                   prim fos)))
          else Inr (NewStorage zeroConfig prim fos))))"

section \<open>The daemon's message handlers\<close>

definition getFullPath :: "env \<Rightarrow> string \<Rightarrow> error + string" where
  "getFullPath e relativePath =
     (case PgDataSetting e of
        None \<Rightarrow> Inl PgdataNotSet
      | Some pgdata \<Rightarrow> Inr (path_Join [pgdata, relativePath]))"

text \<open>
  A handler is the connection it answers on (passed to \<open>Handle\<close> here) and, for a push or
  a fetch, the uploader or reader prepared on the storage.
\<close>

datatype SocketMessageHandler =
    CheckMessageHandler
  | ArchiveMessageHandler Storage
  | WalFetchMessageHandler Storage

text \<open>Writing a reply: \<open>SocketWriteFailedError\<close> when the write fails.\<close>

definition reply :: "conn \<Rightarrow> byte \<Rightarrow> error option \<times> conn" where
  "reply c t =
     (case Write c (ToBytes t) of
        (False, c') \<Rightarrow> (Some SocketWriteFailed, c')
      | (True, c') \<Rightarrow> (None, c'))"

definition Check_Handle :: "conn \<Rightarrow> error option \<times> conn" where
  "Check_Handle c = reply c OkType"

definition Archive_Handle :: "env \<Rightarrow> Storage \<Rightarrow> conn \<Rightarrow> byte list \<Rightarrow> error option \<times> conn" where
  "Archive_Handle e uploader c messageBody =
     (let walFileName = string_of_bytes messageBody in
      case getFullPath e (path_Join [''pg_wal'', walFileName]) of
        Inl err \<Rightarrow> (Some err, c)
      | Inr fullPath \<Rightarrow>
     (case PgDaemonWALUploadTimeout e of
        Inl err \<Rightarrow> (Some err, c)
      | Inr pushTimeout \<Rightarrow>
     (case HandleWALPush e uploader pushTimeout fullPath of
        Some err \<Rightarrow> (Some (Wrapped ''file archiving failed'' err), c)
      | None \<Rightarrow> reply c OkType)))"

definition WalFetch_Handle :: "env \<Rightarrow> Storage \<Rightarrow> conn \<Rightarrow> byte list \<Rightarrow> error option \<times> conn" where
  "WalFetch_Handle e reader c messageBody =
     (case BytesToArgs e messageBody of
        Inl err \<Rightarrow> (Some err, c)
      | Inr args \<Rightarrow>
          if length args \<noteq> 2 then (Some IncorrectArgumentsCount, c)
          else
            (let walFileName = args ! 0; location = args ! 1 in
             case getFullPath e location of
               Inl err \<Rightarrow> (Some err, c)
             | Inr fullPath \<Rightarrow>
            (case HandleWALFetch e reader walFileName fullPath of
               Some ArchiveNonExistenceError \<Rightarrow> reply c ArchiveNonExistenceType
             | Some err \<Rightarrow> (Some (Wrapped ''WAL fetch failed'' err), c)
             | None \<Rightarrow> reply c OkType)))"

definition Handle :: "env \<Rightarrow> SocketMessageHandler \<Rightarrow> conn \<Rightarrow> byte list \<Rightarrow> error option \<times> conn" where
  "Handle e h c messageBody =
     (case h of
        CheckMessageHandler \<Rightarrow> Check_Handle c
      | ArchiveMessageHandler uploader \<Rightarrow> Archive_Handle e uploader c messageBody
      | WalFetchMessageHandler reader \<Rightarrow> WalFetch_Handle e reader c messageBody)"

text \<open>\<open>NewMessageHandler\<close>: no handler and no error for any other message type.\<close>

definition NewMessageHandler :: "env \<Rightarrow> byte \<Rightarrow> Storage \<Rightarrow> error + SocketMessageHandler option" where
  "NewMessageHandler e messageType st =
     (if messageType = CheckType then Inr (Some CheckMessageHandler)
      else if messageType = WalPushType then
        (case PrepareMultiStorageWalUploader e st of
           Some err \<Rightarrow> Inl err
         | None \<Rightarrow> Inr (Some (ArchiveMessageHandler st)))
      else if messageType = WalFetchType then
        (case PrepareMultiStorageFolderReader e st of
           Some err \<Rightarrow> Inl err
         | None \<Rightarrow> Inr (Some (WalFetchMessageHandler st)))
      else Inr None)"

text \<open>
  \<open>handleMessage\<close>: the error it returns, the connection after it, and the multi-storage
  it has configured for the message (closed again when it returns). When the
  configuration fails, the deferred close is handed no storage; what \<open>LoggedClose\<close> does
  with it is outside these sources, and the model returns the error.
\<close>

definition handleMessage :: "env \<Rightarrow> byte \<Rightarrow> byte list \<Rightarrow> conn \<Rightarrow> error option \<times> conn \<times> Storage option" where
  "handleMessage e messageType messageBody c =
     (case ConfigureMultiStorage e True of
        Inl err \<Rightarrow> (Some (Wrapped ''configure multi-storage'' err), c, None)
      | Inr multiSt \<Rightarrow>
     (case NewMessageHandler e messageType multiSt of
        Inl err \<Rightarrow> (Some (Wrapped ''init handler for message type'' err), c, Some multiSt)
      | Inr None \<Rightarrow> (Some (UnexpectedMessageType messageType), c, Some multiSt)
      | Inr (Some messageHandler) \<Rightarrow>
     (case Handle e messageHandler c messageBody of
        (Some err, c') \<Rightarrow> (Some (Wrapped ''handle message'' err), c', Some multiSt)
      | (None, c') \<Rightarrow> (None, c', Some multiSt))))"

definition failAndLogError :: "conn \<Rightarrow> conn" where
  "failAndLogError c = snd (Write c (ToBytes ErrorType))"

definition LoggedClose :: "conn \<Rightarrow> conn" where
  "LoggedClose c = c\<lparr>closed := True\<rparr>"

lemma incoming_reply: "incoming (snd (reply c t)) = incoming c"
  by (simp add: reply_def Write_def)

lemma incoming_Handle: "incoming (snd (Handle e h c b)) = incoming c"
  by (simp add: Handle_def Check_Handle_def Archive_Handle_def WalFetch_Handle_def
      incoming_reply Let_def split: SocketMessageHandler.splits sum.splits option.splits
      error.splits)

lemma incoming_Handle_eq: "Handle e h c b = (r, c') \<Longrightarrow> incoming c' = incoming c"
  using incoming_Handle [of e h c b] by simp

lemma incoming_handleMessage: "incoming (fst (snd (handleMessage e t b c))) = incoming c"
  by (auto simp add: handleMessage_def dest: incoming_Handle_eq
      split: sum.splits option.splits prod.splits)

lemma length_incoming_Next:
  "Next c = (Inr m, c1) \<Longrightarrow> length (incoming c1) < length (incoming c)"
  by (auto simp add: Next_def ReadFull_def Let_def split: if_splits)

text \<open>
  \<open>Listen\<close>: the worker of one accepted connection. It returns the messages it has read
  and the connection as it leaves it. The loop ends after a failure and after a push or
  a fetch; after any other message handled without error it reads the next one.
\<close>

function Listen :: "env \<Rightarrow> conn \<Rightarrow> (byte \<times> byte list) list \<times> conn" where
  "Listen e c =
     (case Next c of
        (Inl err, c1) \<Rightarrow> ([], LoggedClose (failAndLogError c1))
      | (Inr (messageType, messageBody), c1) \<Rightarrow>
     (case handleMessage e messageType messageBody c1 of
        (Some err, c2, st) \<Rightarrow> ([(messageType, messageBody)], LoggedClose (failAndLogError c2))
      | (None, c2, st) \<Rightarrow>
          if messageType = WalPushType then ([(messageType, messageBody)], LoggedClose c2)
          else if messageType = WalFetchType then ([(messageType, messageBody)], LoggedClose c2)
          else (let (ms, c3) = Listen e c2 in ((messageType, messageBody) # ms, c3))))"
  by pat_completeness auto
termination
proof (relation "measure (\<lambda>(e, c). length (incoming c))")
  show "wf (measure (\<lambda>(e, c). length (incoming c)))" by simp
next
  fix e c x1 c1 m messageType messageBody x2 x2a c2 st
  assume n: "(x1, c1) = Next c" "x1 = Inr m" "(messageType, messageBody) = m"
    and h: "(x2, x2a) = handleMessage e messageType messageBody c1" "(c2, st) = x2a"
  from n have "length (incoming c1) < length (incoming c)"
    using length_incoming_Next [of c m c1] by simp
  moreover from h have "incoming c2 = incoming c1"
    using incoming_handleMessage [of e messageType messageBody c1]
    by (metis fst_conv snd_conv)
  ultimately show "((e, c2), (e, c)) \<in> measure (\<lambda>(e, c). length (incoming c))"
    by simp
qed

declare Listen.simps [simp del]

text \<open>
  Modelled from the spec: \<open>daemon.BytesToArgs\<close>, whose file is not among the sources.
  The spec gives the body of a fetch as fields separated by NUL
  (\<open>filename\0dest_path\<close>). The handlers take the function from \<open>env\<close>; this one
  serves where a concrete one is needed.
\<close>

fun split_nul :: "byte list \<Rightarrow> byte list list" where
  "split_nul [] = [[]]"
| "split_nul (b # bs) =
     (if b = 0 then [] # split_nul bs
      else (case split_nul bs of [] \<Rightarrow> [[b]] | w # ws \<Rightarrow> (b # w) # ws))"

definition BytesToArgs_nul :: "byte list \<Rightarrow> error + string list" where
  "BytesToArgs_nul body = Inr (map string_of_bytes (split_nul body))"

text \<open>
  A configuration to run the daemon on: a primary storage and one failover (so that
  alive checks are on by default), every setting present, and a fetch that finds the
  segment in no storage.
\<close>

definition example_env :: env where
  "example_env =
     \<lparr>ConfigureStorage = Inr ''default'',
      ConfigureFailoverStorages = Inr [''fo1''],
      PgFailoverStoragesCheck = None,
      PgFailoverStorageCacheLifetime = Inr 900,
      PgFailoverStoragesCheckTimeout = Inr 30,
      PgFailoverStoragesCheckSize = 1048576,
      PgDataSetting = Some ''/pgdata'',
      PgDaemonWALUploadTimeout = Inr 60,
      PrepareMultiStorageWalUploader = (\<lambda>st. None),
      PrepareMultiStorageFolderReader = (\<lambda>st. None),
      HandleWALPush = (\<lambda>st timeout fullPath. None),
      HandleWALFetch = (\<lambda>st walFileName fullPath. Some ArchiveNonExistenceError),
      BytesToArgs = BytesToArgs_nul\<rparr>"

section \<open>The storage status cache\<close>

subsection \<open>Keys, statuses and their merge\<close>

text \<open>
  Modelled from the spec: the cache key and the alive fact, whose declarations are not
  among the sources. A key is \<open>{name, config_hash}\<close> (the sources use \<open>key.Name\<close>) and
  its string form is \<open>"<name>#<config_hash>"\<close>; a fact is
  \<open>{alive, checked_at, operation_weight_sum}\<close>, with the time an integer instant.
\<close>

record Key =
  Name :: string
  Hash :: string

record storageStatus =
  alive :: bool
  checked_at :: int
  operation_weight_sum :: int

type_synonym storageStatuses = "Key \<rightharpoonup> storageStatus"

type_synonym AliveMap = "string \<rightharpoonup> bool"

definition Key_String :: "Key \<Rightarrow> string" where
  "Key_String k = Name k @ ''#'' @ Hash k"

text \<open>The zero value of \<open>Key\<close>, which \<open>make([]Key, n)\<close> fills a slice with.\<close>

definition zeroKey :: Key where
  "zeroKey = \<lparr>Name = [], Hash = []\<rparr>"

text \<open>
  Modelled from the spec: \<open>isRelevant\<close> and \<open>splitByRelevance\<close> (not among the
  sources). A fact is relevant iff \<open>now - checked_at \<le> ttl\<close>; \<open>isRelevant\<close> holds when
  every given key has a fact in the map and that fact is relevant; \<open>splitByRelevance\<close>
  splits the facts of the given keys into the relevant and the outdated ones.
\<close>

definition relevant :: "int \<Rightarrow> int \<Rightarrow> storageStatus \<Rightarrow> bool" where
  "relevant ttl now s = (now - checked_at s \<le> ttl)"

definition isRelevant :: "int \<Rightarrow> int \<Rightarrow> storageStatuses \<Rightarrow> Key list \<Rightarrow> bool" where
  "isRelevant ttl now ss keys =
     list_all (\<lambda>k. case ss k of None \<Rightarrow> False | Some s \<Rightarrow> relevant ttl now s) keys"

definition splitByRelevance ::
  "int \<Rightarrow> int \<Rightarrow> storageStatuses \<Rightarrow> Key list \<Rightarrow> storageStatuses \<times> storageStatuses" where
  "splitByRelevance ttl now ss keys =
     ((\<lambda>k. if k \<in> set keys
             then (case ss k of None \<Rightarrow> None
                   | Some s \<Rightarrow> if relevant ttl now s then Some s else None)
             else None),
      (\<lambda>k. if k \<in> set keys
             then (case ss k of None \<Rightarrow> None
                   | Some s \<Rightarrow> if relevant ttl now s then None else Some s)
             else None))"

text \<open>
  Modelled from the spec: \<open>mergeByRelevance\<close> (not among the sources). Per key, the
  entry with the larger \<open>checked_at\<close>; at equal times the one with \<open>alive = true\<close>; the
  winner is kept as it is, its \<open>operation_weight_sum\<close> included. The spec names no
  winner between two entries that agree on both, and it requires
  \<open>merge(A, B) = merge(B, A)\<close>: two such entries differ in \<open>operation_weight_sum\<close> at
  most, and the one with the larger sum is kept, whichever map it comes from.
\<close>

definition mergeStatus :: "storageStatus \<Rightarrow> storageStatus \<Rightarrow> storageStatus" where
  "mergeStatus a b =
     (if checked_at a < checked_at b then b
      else if checked_at b < checked_at a then a
      else if alive a \<and> \<not> alive b then a
      else if alive b \<and> \<not> alive a then b
      else if operation_weight_sum a < operation_weight_sum b then b
      else a)"


definition mergeByRelevance :: "storageStatuses \<Rightarrow> storageStatuses \<Rightarrow> storageStatuses" where
  "mergeByRelevance a b =
     (\<lambda>k. case a k of
             None \<Rightarrow> b k
           | Some sa \<Rightarrow> (case b k of None \<Rightarrow> Some sa | Some sb \<Rightarrow> Some (mergeStatus sa sb)))"

text \<open>
  A merge of two entries by a rule that looks at \<open>alive\<close> and \<open>checked_at\<close> only:
  \<open>first_wins\<close> says whether the first entry wins.
\<close>

definition mergeStatusBy ::
  "(bool \<times> int \<Rightarrow> bool \<times> int \<Rightarrow> bool) \<Rightarrow> storageStatus \<Rightarrow> storageStatus \<Rightarrow> storageStatus" where
  "mergeStatusBy first_wins a b =
     (if first_wins (alive a, checked_at a) (alive b, checked_at b) then a else b)"

subsection \<open>What the cache takes from outside these sources\<close>

text \<open>
  The functions the cache calls whose code is not among the sources, and the choices Go
  leaves open, are the fields of \<open>rt\<close>: the JSON codec on the document
  \<open>map[string]storageStatus\<close> (\<open>None\<close> for an error), \<open>ParseKey\<close>, the order in which
  \<open>range\<close> visits the keys of a map (a list of its keys), \<open>applyOperationResult\<close> (its
  first argument is the entry of the key in the map, if any) and \<open>aliveMap\<close>.
\<close>

record rt =
  json_Marshal :: "(string \<rightharpoonup> storageStatus) \<Rightarrow> string option"
  json_Unmarshal :: "string \<Rightarrow> (string \<rightharpoonup> storageStatus) option"
  ParseKey :: "string \<Rightarrow> Key"
  range_statuses :: "storageStatuses \<Rightarrow> Key list"
  range_json :: "(string \<rightharpoonup> storageStatus) \<Rightarrow> string list"
  range_usedKeys :: "(string \<rightharpoonup> Key) \<Rightarrow> Key list"
  applyOperationResult :: "storageStatus option \<Rightarrow> bool \<Rightarrow> int \<Rightarrow> int \<Rightarrow> storageStatus"
  aliveMap :: "storageStatuses \<Rightarrow> AliveMap"

subsection \<open>The shared file\<close>

text \<open>
  The cache file at the path of the \<open>SharedFile\<close>: its bytes (\<open>None\<close> when there is no
  file), how often it has been opened for reading, and which system calls fail.
\<close>

record file_sys =
  data :: "string option"
  reads :: nat
  open_fails :: bool
  lock_fails :: bool
  read_fails :: bool
  truncate_fails :: bool
  write_fails :: bool

text \<open>
  The loops \<open>for k, stat := range m { out[f(k)] = stat }\<close> of \<open>read\<close> and \<open>write\<close>: the
  keys are visited in the order \<open>order\<close>, a later entry replacing an earlier one under
  the same new key.
\<close>

definition rekey :: "('a \<Rightarrow> 'b) \<Rightarrow> ('a \<rightharpoonup> 'v) \<Rightarrow> 'a list \<Rightarrow> ('b \<rightharpoonup> 'v)" where
  "rekey f m order =
     fold (\<lambda>k out. case m k of None \<Rightarrow> out | Some stat \<Rightarrow> out(f k \<mapsto> stat)) order Map.empty"

definition SharedFile_read :: "rt \<Rightarrow> file_sys \<Rightarrow> (error + storageStatuses) \<times> file_sys" where
  "SharedFile_read r fs =
     (case data fs of
        None \<Rightarrow> (Inl (Wrapped ''open cache file'' OpenCacheFile), fs)
      | Some bytes \<Rightarrow>
          if open_fails fs then (Inl (Wrapped ''open cache file'' OpenCacheFile), fs)
          else
            (let fs' = fs\<lparr>reads := reads fs + 1\<rparr> in
             if lock_fails fs
             then (Inl (Wrapped ''acquire shared lock for the cache file'' LockCacheFile), fs')
             else if read_fails fs then (Inl (Wrapped ''read cache file'' ReadCacheFile), fs')
             else
               (case json_Unmarshal r bytes of
                  None \<Rightarrow> (Inl (Wrapped ''unmarshal cache file content'' UnmarshalCacheFile), fs')
                | Some validJSONContent \<Rightarrow>
                    (Inr (rekey (ParseKey r) validJSONContent (range_json r validJSONContent)),
                     fs'))))"

text \<open>
  \<open>file.Truncate(n)\<close> cuts the file to \<open>n\<close> bytes or fills it up to \<open>n\<close> with zero
  bytes; \<open>file.Write(bytes)\<close> on the fresh descriptor writes at offset 0, over what is
  there.
\<close>

definition file_Truncate :: "string \<Rightarrow> nat \<Rightarrow> string" where
  "file_Truncate old n = take n old @ replicate (n - length old) (CHR 0x00)"

definition file_Write :: "string \<Rightarrow> string \<Rightarrow> string" where
  "file_Write old bytes = bytes @ drop (length bytes) old"

definition SharedFile_write :: "rt \<Rightarrow> storageStatuses \<Rightarrow> file_sys \<Rightarrow> error option \<times> file_sys" where
  "SharedFile_write r content fs =
     (let validJSONContent = rekey Key_String content (range_statuses r content) in
      case json_Marshal r validJSONContent of
        None \<Rightarrow> (Some (Wrapped ''marshal cache file content'' MarshalCacheFile), fs)
      | Some bytes \<Rightarrow>
          if open_fails fs then (Some (Wrapped ''open cache file'' OpenCacheFile), fs)
          else
            (let old = (case data fs of None \<Rightarrow> [] | Some b \<Rightarrow> b);
                 fs1 = fs\<lparr>data := Some old\<rparr>
             in if lock_fails fs
                then (Some (Wrapped ''acquire exclusive lock for the cache file'' LockCacheFile), fs1)
                else if truncate_fails fs
                then (Some (Wrapped ''truncate cache file'' TruncateCacheFile), fs1)
                else
                  (let truncated = file_Truncate old (length bytes);
                       fs2 = fs\<lparr>data := Some truncated\<rparr>
                   in if write_fails fs
                      then (Some (Wrapped ''write cache file'' WriteCacheFile), fs2)
                      else (None, fs\<lparr>data := Some (file_Write truncated bytes)\<rparr>))))"

subsection \<open>The cache\<close>

text \<open>
  The \<open>cache\<close> struct: \<open>shMem\<close> is the map \<open>c.shMem.Statuses\<close> (every method holds its
  lock from start to end), \<open>shFile_Updated\<close> is \<open>c.shFile.Updated\<close>, and the file itself
  is the \<open>file_sys\<close> the methods take and return. \<open>now\<close> is the clock.
\<close>

record cache =
  usedKeys :: "string \<rightharpoonup> Key"
  ttl :: int
  shMem :: storageStatuses
  shFile_Updated :: int
  shFileUsed :: bool
  shFileFlushTimeout :: int

text \<open>
  \<open>correspondingKeys\<close>: the slice starts as \<open>make([]Key, len(names))\<close>, that is with
  \<open>len(names)\<close> zero keys, and the loop appends to it.
\<close>

fun appendKeys :: "(string \<rightharpoonup> Key) \<Rightarrow> string list \<Rightarrow> Key list \<Rightarrow> error + Key list" where
  "appendKeys uk [] keys = Inr keys"
| "appendKeys uk (name # names) keys =
     (case uk name of
        None \<Rightarrow> Inl (UnknownStorage name)
      | Some key \<Rightarrow> appendKeys uk names (keys @ [key]))"

definition correspondingKeys :: "cache \<Rightarrow> string list \<Rightarrow> error + Key list" where
  "correspondingKeys c names =
     appendKeys (usedKeys c) names (replicate (length names) zeroKey)"

text \<open>
  \<open>Read\<close>. \<open>c.shFile\<close> is nil when the cache was made without a file, and \<open>Read\<close> calls
  \<open>c.shFile.read()\<close> without asking \<open>shFileUsed\<close>: the nil pointer is dereferenced there.
  A failed read of the file is logged and the file taken to be empty.
\<close>

definition Read ::
  "rt \<Rightarrow> cache \<Rightarrow> file_sys \<Rightarrow> int \<Rightarrow> string list \<Rightarrow>
     (error + AliveMap \<times> AliveMap) \<times> cache \<times> file_sys" where
  "Read r c fs now storageNames =
     (case correspondingKeys c storageNames of
        Inl err \<Rightarrow> (Inl err, c, fs)
      | Inr storageKeys \<Rightarrow>
          if isRelevant (ttl c) now (shMem c) storageKeys
          then (Inr (aliveMap r (shMem c), Map.empty), c, fs)
          else if \<not> shFileUsed c then (Inl NilDereference, c, fs)
          else
            (case SharedFile_read r fs of (res, fs') \<Rightarrow>
               (let fileStatuses = (case res of Inl err \<Rightarrow> Map.empty | Inr m \<Rightarrow> m);
                    memAndFileMerged = mergeByRelevance (shMem c) fileStatuses;
                    c' = c\<lparr>shMem := memAndFileMerged\<rparr>
                in case splitByRelevance (ttl c) now memAndFileMerged storageKeys of
                     (relevantStatuses, outdatedStatuses) \<Rightarrow>
                       (Inr (aliveMap r relevantStatuses, aliveMap r outdatedStatuses), c', fs'))))"

text \<open>
  \<open>ApplyOperationResult\<close>: the key is the first of \<open>usedKeys\<close> with the storage's name, the
  zero key when there is none. The file is written when it is in use and was last
  updated at least \<open>shFileFlushTimeout\<close> ago; what is written is \<open>c.shMem.Statuses\<close>.
\<close>

definition ApplyOperationResult ::
  "rt \<Rightarrow> cache \<Rightarrow> file_sys \<Rightarrow> int \<Rightarrow> string \<Rightarrow> bool \<Rightarrow> int \<Rightarrow> cache \<times> file_sys" where
  "ApplyOperationResult r c fs now storage isAlive weight =
     (let key = (case find (\<lambda>k. Name k = storage) (range_usedKeys r (usedKeys c)) of
                   None \<Rightarrow> zeroKey | Some k \<Rightarrow> k);
          c' = c\<lparr>shMem := (shMem c)
                  (key \<mapsto> applyOperationResult r (shMem c key) isAlive weight now)\<rparr>
      in if \<not> shFileUsed c then (c', fs)
         else if now - shFile_Updated c < shFileFlushTimeout c then (c', fs)
         else (c', snd (SharedFile_write r (shMem c') fs)))"

text \<open>\<open>Flush\<close>: the file is read, merged with the memory and written back.\<close>

definition Flush :: "rt \<Rightarrow> cache \<Rightarrow> file_sys \<Rightarrow> file_sys" where
  "Flush r c fs =
     (if \<not> shFileUsed c then fs
      else
        (case SharedFile_read r fs of (res, fs') \<Rightarrow>
           (let fileStatuses = (case res of Inl err \<Rightarrow> Map.empty | Inr m \<Rightarrow> m);
                memAndFileMerged = mergeByRelevance (shMem c) fileStatuses
            in snd (SharedFile_write r memAndFileMerged fs'))))"

subsection \<open>An example runtime\<close>

text \<open>
  Modelled from the spec: a \<open>ParseKey\<close> for the key format \<open>"<name>#<config_hash>"\<close>
  (it splits at the last \<open>#\<close>) and an \<open>applyOperationResult\<close> that sets \<open>alive\<close> and
  \<open>checked_at = now\<close> and adds the weight to the sum. They stand in the example runtime
  only; the cache takes both from \<open>rt\<close>.
\<close>

definition ParseKey_last :: "string \<Rightarrow> Key" where
  "ParseKey_last str =
     \<lparr>Name = butlast (rev (dropWhile (\<lambda>c. c \<noteq> CHR ''#'') (rev str))),
      Hash = rev (takeWhile (\<lambda>c. c \<noteq> CHR ''#'') (rev str))\<rparr>"

definition accumulate_weight :: "storageStatus option \<Rightarrow> bool \<Rightarrow> int \<Rightarrow> int \<Rightarrow> storageStatus" where
  "accumulate_weight old isAlive weight now =
     \<lparr>alive = isAlive, checked_at = now,
      operation_weight_sum = (case old of None \<Rightarrow> 0 | Some s \<Rightarrow> operation_weight_sum s) + weight\<rparr>"

text \<open>
  Two configured storages and a runtime for them: its codec is a table on the documents
  over their keys (between braces, one letter per entry; an error on anything else, the
  empty file included), and \<open>range\<close> visits the keys in a fixed order.
\<close>

definition K_default :: Key where "K_default = \<lparr>Name = ''default'', Hash = ''h1''\<rparr>"
definition K_fo1 :: Key where "K_fo1 = \<lparr>Name = ''fo1'', Hash = ''h2''\<rparr>"

definition status_default :: storageStatus where
  "status_default = \<lparr>alive = True, checked_at = 1000, operation_weight_sum = 1\<rparr>"
definition status_fo1 :: storageStatus where
  "status_fo1 = \<lparr>alive = False, checked_at = 900, operation_weight_sum = 0\<rparr>"

definition example_Marshal :: "(string \<rightharpoonup> storageStatus) \<Rightarrow> string option" where
  "example_Marshal d =
     (if (d ''default#h1'' = None \<or> d ''default#h1'' = Some status_default) \<and>
         (d ''fo1#h2'' = None \<or> d ''fo1#h2'' = Some status_fo1)
      then Some (''{'' @ (if d ''default#h1'' = None then [] else ''D'') @
                 (if d ''fo1#h2'' = None then [] else ''F'') @ ''}'')
      else None)"

definition example_Unmarshal :: "string \<Rightarrow> (string \<rightharpoonup> storageStatus) option" where
  "example_Unmarshal bytes =
     (case bytes of
        [] \<Rightarrow> None
      | c # rest \<Rightarrow>
          if c = CHR ''{'' \<and> rest \<noteq> [] \<and> last rest = CHR ''}'' \<and>
             list_all (\<lambda>c. c \<in> set ''DF'') (butlast rest)
          then Some (\<lambda>str.
            if str = ''default#h1'' \<and> CHR ''D'' \<in> set (butlast rest) then Some status_default
            else if str = ''fo1#h2'' \<and> CHR ''F'' \<in> set (butlast rest) then Some status_fo1
            else None)
          else None)"

definition example_rt :: rt where
  "example_rt =
     \<lparr>json_Marshal = example_Marshal,
      json_Unmarshal = example_Unmarshal,
      ParseKey = ParseKey_last,
      range_statuses = (\<lambda>m. filter (\<lambda>k. m k \<noteq> None) [K_default, K_fo1]),
      range_json = (\<lambda>d. filter (\<lambda>str. d str \<noteq> None) [''default#h1'', ''fo1#h2'']),
      range_usedKeys = (\<lambda>uk. map the (filter (\<lambda>k. k \<noteq> None) (map uk [''default'', ''fo1'']))),
      applyOperationResult = accumulate_weight,
      aliveMap = (\<lambda>ss name. if name = ''default'' then map_option alive (ss K_default)
                            else if name = ''fo1'' then map_option alive (ss K_fo1) else None)\<rparr>"

definition example_cache :: cache where
  "example_cache =
     \<lparr>usedKeys = [''default'' \<mapsto> K_default, ''fo1'' \<mapsto> K_fo1], ttl = 60,
      shMem = Map.empty, shFile_Updated = 0, shFileUsed = True, shFileFlushTimeout = 300\<rparr>"

definition example_fs :: "string option \<Rightarrow> file_sys" where
  "example_fs bytes =
     \<lparr>data = bytes, reads = 0, open_fails = False, lock_fails = False, read_fails = False,
      truncate_fails = False, write_fails = False\<rparr>"

section \<open>Folders and the recursive listing\<close>




























section \<open>Properties\<close>

subsection \<open>Framing\<close>

lemma be_uint16_add: "be_uint16 hi lo = push_bit 8 (ucast hi) + ucast lo"
  unfolding be_uint16_def
  by (rule disjunctive_add [symmetric]) (auto simp add: bit_simps dest: bit_imp_le_length)

lemma unat_be_uint16: "unat (be_uint16 hi lo) = 256 * unat hi + unat lo"
proof -
  have hi: "unat hi < 256" and lo: "unat lo < 256"
    using unsigned_less [of hi] unsigned_less [of lo] by simp_all
  have "be_uint16 hi lo = of_nat (256 * unat hi + unat lo)"
    by (simp add: be_uint16_add push_bit_eq_mult)
  moreover have "256 * unat hi + unat lo < 2 ^ 16" using hi lo by simp
  ultimately show ?thesis
    by (simp add: unat_of_nat take_bit_nat_eq_self del: of_nat_add of_nat_mult)
qed

lemma unat_minus3:
  "unat ((w :: 16 word) - 3) = (if 3 \<le> unat w then unat w - 3 else 2 ^ 16 + unat w - 3)"
  by (simp add: unat_sub_if' word_le_nat_alt word_less_nat_alt)

text \<open>
  C10. \<open>SocketMessageReader.Next\<close> takes the body size to be the 16-bit difference
  \<open>messageLength - 3\<close>. On a frame with header \<open>t, hi, lo\<close> and declared length
  \<open>256 * hi + lo\<close> it reads exactly \<open>length - 3\<close> body bytes when the length is at
  least 3, and \<open>2^16 + length - 3\<close> body bytes when the length is 0, 1 or 2 (65533 for
  length 0); it fails only when the stream ends before that many bytes.
\<close>

theorem Next_body_size_wraps:
  assumes "incoming c = t # hi # lo # rest"
  shows "Next c =
    (let declared = 256 * unat hi + unat lo;
         n = (if 3 \<le> declared then declared - 3 else 2 ^ 16 + declared - 3)
     in if n \<le> length rest
        then (Inr (t, take n rest), c\<lparr>incoming := drop n rest\<rparr>)
        else (Inl FailedReadBody, c\<lparr>incoming := []\<rparr>))"
  using assms
  by (simp add: Next_def ReadFull_def Let_def unat_minus3 unat_be_uint16)

theorem Next_body_size_wraps_witness:
  "Next \<lparr>incoming = [0x43, 0, 0, 1, 2], written = [], writable = True, closed = False\<rparr> =
     (Inl FailedReadBody, \<lparr>incoming = [], written = [], writable = True, closed = False\<rparr>)
   \<and> Next \<lparr>incoming = [0x46, 0, 5, 1, 2, 9], written = [], writable = True, closed = False\<rparr> =
     (Inr (0x46, [1, 2]), \<lparr>incoming = [9], written = [], writable = True, closed = False\<rparr>)"
  using Next_body_size_wraps [of "\<lparr>incoming = [0x43, 0, 0, 1, 2], written = [], writable = True, closed = False\<rparr>" "0x43" 0 0 "[1, 2]"]
    Next_body_size_wraps [of "\<lparr>incoming = [0x46, 0, 5, 1, 2, 9], written = [], writable = True, closed = False\<rparr>" "0x46" 0 5 "[1, 2, 9]"]
  by simp

subsection \<open>The daemon\<close>

lemma CheckWrite_ConfigureMultiStorage:
  "ConfigureMultiStorage e checkWrite = Inr st \<Longrightarrow>
     CheckWrite (config st) = (AliveChecks (config st) \<and> checkWrite)"
  by (auto simp add: ConfigureMultiStorage_def NewStorage_def zeroConfig_def Let_def
      split: sum.splits if_splits)

lemma storage_handleMessage:
  "handleMessage e t b c = (r, c', Some st) \<Longrightarrow> ConfigureMultiStorage e True = Inr st"
  by (auto simp add: handleMessage_def split: sum.splits option.splits prod.splits)

text \<open>
  C4. The claim: the storage of a message is configured with \<open>check_write\<close> true for
  \<open>WalPush\<close> only. \<open>handleMessage\<close> calls \<open>ConfigureMultiStorage(true)\<close> before it
  looks at the message type, so for every type, \<open>Check\<close> and \<open>WalFetch\<close> included, the
  storage it builds checks writes whenever alive checks are on.
\<close>

theorem handleMessage_checks_write_for_every_type:
  assumes "handleMessage e messageType messageBody c = (r, c', Some st)"
  shows "CheckWrite (config st) = AliveChecks (config st)"
  using CheckWrite_ConfigureMultiStorage [OF storage_handleMessage [OF assms]] by simp

theorem handleMessage_checks_write_for_every_type_witness:
  "handleMessage example_env CheckType []
      \<lparr>incoming = [], written = [], writable = True, closed = False\<rparr> =
     (None, \<lparr>incoming = [], written = [OkType], writable = True, closed = False\<rparr>,
      Some \<lparr>config = \<lparr>AliveChecks = True, StatusCacheTTL = 900, AliveCheckTimeout = 30,
                CheckWrite = True, AliveCheckWriteBytes = 1048576\<rparr>,
             primary = ''default'', failovers = [''fo1'']\<rparr>)
   \<and> CheckWrite \<lparr>AliveChecks = True, StatusCacheTTL = 900, AliveCheckTimeout = 30,
                CheckWrite = True, AliveCheckWriteBytes = 1048576\<rparr>"
proof -
  have h: "handleMessage example_env CheckType []
      \<lparr>incoming = [], written = [], writable = True, closed = False\<rparr> =
     (None, \<lparr>incoming = [], written = [OkType], writable = True, closed = False\<rparr>,
      Some \<lparr>config = \<lparr>AliveChecks = True, StatusCacheTTL = 900, AliveCheckTimeout = 30,
                CheckWrite = True, AliveCheckWriteBytes = 1048576\<rparr>,
             primary = ''default'', failovers = [''fo1'']\<rparr>)"
    by (simp add: handleMessage_def ConfigureMultiStorage_def example_env_def
        GetBoolSettingDefault_def NewStorage_def zeroConfig_def NewMessageHandler_def
        Handle_def Check_Handle_def reply_def Write_def ToBytes_def)
  from handleMessage_checks_write_for_every_type [OF h] h show ?thesis by simp
qed

lemma reply_writable:
  "writable c \<Longrightarrow> reply c t = (None, c\<lparr>written := written c @ [t]\<rparr>)"
  by (simp add: reply_def Write_def ToBytes_def)

lemma Next_keeps:
  "Next c = (r, c1) \<Longrightarrow> written c1 = written c \<and> writable c1 = writable c \<and> closed c1 = closed c"
  by (auto simp add: Next_def ReadFull_def Let_def split: if_splits)

lemma failAndLogError_writable:
  "writable c \<Longrightarrow> failAndLogError c = c\<lparr>written := written c @ [ErrorType]\<rparr>"
  by (simp add: failAndLogError_def Write_def ToBytes_def)

lemma Handle_writable:
  assumes "writable c" and "Handle e h c b = (r, c')"
  shows "(r = None \<and> (c' = c\<lparr>written := written c @ [OkType]\<rparr> \<or>
                        c' = c\<lparr>written := written c @ [ArchiveNonExistenceType]\<rparr>))
         \<or> (r \<noteq> None \<and> c' = c)"
  using assms
  by (auto simp add: Handle_def Check_Handle_def Archive_Handle_def WalFetch_Handle_def
      reply_writable Let_def split: SocketMessageHandler.splits sum.splits option.splits
      error.splits if_splits)

lemma handleMessage_writable:
  assumes "writable c" and "handleMessage e t b c = (r, c', st)"
  shows "(r = None \<and> (c' = c\<lparr>written := written c @ [OkType]\<rparr> \<or>
                        c' = c\<lparr>written := written c @ [ArchiveNonExistenceType]\<rparr>))
         \<or> (r \<noteq> None \<and> c' = c)"
  using assms
  by (auto simp add: handleMessage_def split: sum.splits option.splits prod.splits
      dest: Handle_writable)

lemma handleMessage_None_type:
  assumes "handleMessage e t b c = (None, c', st)"
  shows "t = CheckType \<or> t = WalPushType \<or> t = WalFetchType"
  using assms
  by (auto simp add: handleMessage_def NewMessageHandler_def
      split: sum.splits option.splits prod.splits if_splits)

lemma handleMessage_Check_writable:
  assumes "writable c" and "handleMessage e CheckType b c = (None, c', st)"
  shows "c' = c\<lparr>written := written c @ [OkType]\<rparr>"
  using assms
  by (auto simp add: handleMessage_def NewMessageHandler_def Handle_def Check_Handle_def
      reply_writable split: sum.splits option.splits prod.splits if_splits)

lemma Listen_Inl:
  "Next c = (Inl err, c1) \<Longrightarrow> Listen e c = ([], LoggedClose (failAndLogError c1))"
  by (subst Listen.simps) simp

lemma Listen_fail:
  "Next c = (Inr (t, b), c1) \<Longrightarrow> handleMessage e t b c1 = (Some err, c2, st) \<Longrightarrow>
     Listen e c = ([(t, b)], LoggedClose (failAndLogError c2))"
  by (subst Listen.simps) simp

lemma Listen_push_fetch:
  "Next c = (Inr (t, b), c1) \<Longrightarrow> handleMessage e t b c1 = (None, c2, st) \<Longrightarrow>
     t = WalPushType \<or> t = WalFetchType \<Longrightarrow> Listen e c = ([(t, b)], LoggedClose c2)"
  by (subst Listen.simps) auto

lemma Listen_continue:
  "Next c = (Inr (t, b), c1) \<Longrightarrow> handleMessage e t b c1 = (None, c2, st) \<Longrightarrow>
     t \<noteq> WalPushType \<Longrightarrow> t \<noteq> WalFetchType \<Longrightarrow>
     Listen e c = ((t, b) # fst (Listen e c2), snd (Listen e c2))"
  by (subst Listen.simps) (simp add: case_prod_beta)

lemma Listen_shorter:
  assumes "Next c = (Inr (t, b), c1)" and "handleMessage e t b c1 = (r, c2, st)"
  shows "length (incoming c2) < length (incoming c)"
  using length_incoming_Next [OF assms(1)] incoming_handleMessage [of e t b c1] assms(2)
  by simp

lemma Listen_cases:
  obtains (frame) err c1 where "Next c = (Inl err, c1)"
  | (fail) t b c1 err c2 st where "Next c = (Inr (t, b), c1)"
      "handleMessage e t b c1 = (Some err, c2, st)"
  | (last) t b c1 c2 st where "Next c = (Inr (t, b), c1)"
      "handleMessage e t b c1 = (None, c2, st)" "t = WalPushType \<or> t = WalFetchType"
  | (continue) t b c1 c2 st where "Next c = (Inr (t, b), c1)"
      "handleMessage e t b c1 = (None, c2, st)" "t \<noteq> WalPushType" "t \<noteq> WalFetchType"
proof (cases "Next c")
  case (Pair r c1)
  show ?thesis
  proof (cases r)
    case (Inl err)
    with Pair frame show ?thesis by simp
  next
    case (Inr m)
    obtain t b where m: "m = (t, b)" by (cases m)
    obtain r2 c2 st where h: "handleMessage e t b c1 = (r2, c2, st)"
      by (cases "handleMessage e t b c1") auto
    from Pair Inr m have n: "Next c = (Inr (t, b), c1)" by simp
    show ?thesis
    proof (cases r2)
      case None
      with n h last continue show ?thesis by blast
    next
      case (Some err)
      with n h fail show ?thesis by blast
    qed
  qed
qed

lemma Listen_closed: "closed (snd (Listen e c))"
proof (induction "length (incoming c)" arbitrary: c rule: less_induct)
  case less
  show ?case
  proof (cases rule: Listen_cases [where c = c and e = e])
    case (frame err c1)
    then show ?thesis by (simp add: Listen_Inl LoggedClose_def)
  next
    case (fail t b c1 err c2 st)
    then show ?thesis by (simp add: Listen_fail LoggedClose_def)
  next
    case (last t b c1 c2 st)
    then show ?thesis by (simp add: Listen_push_fetch LoggedClose_def)
  next
    case (continue t b c1 c2 st)
    from less [OF Listen_shorter [OF continue(1,2)]] continue
    show ?thesis by (simp add: Listen_continue)
  qed
qed

lemma Listen_replies:
  "writable c \<Longrightarrow>
     \<exists>replies. written (snd (Listen e c)) = written c @ replies \<and>
       set replies \<subseteq> {OkType, ArchiveNonExistenceType, ErrorType} \<and>
       length (fst (Listen e c)) \<le> length replies \<and>
       length replies \<le> length (fst (Listen e c)) + 1"
proof (induction "length (incoming c)" arbitrary: c rule: less_induct)
  case less
  show ?case
  proof (cases rule: Listen_cases [where c = c and e = e])
    case (frame err c1)
    with less.prems Next_keeps [OF frame] show ?thesis
      by (simp add: Listen_Inl LoggedClose_def failAndLogError_writable)
  next
    case (fail t b c1 err c2 st)
    with less.prems Next_keeps [OF fail(1)] handleMessage_writable [OF _ fail(2)]
    show ?thesis
      by (simp add: Listen_fail LoggedClose_def failAndLogError_writable)
  next
    case (last t b c1 c2 st)
    with less.prems Next_keeps [OF last(1)] handleMessage_writable [OF _ last(2)]
    show ?thesis
      by (auto simp add: Listen_push_fetch LoggedClose_def)
  next
    case (continue t b c1 c2 st)
    from less.prems Next_keeps [OF continue(1)] handleMessage_writable [OF _ continue(2)]
    have c2: "writable c2" "\<exists>rb. written c2 = written c @ [rb] \<and> rb \<in> {OkType, ArchiveNonExistenceType}"
      by auto
    then obtain rb where rb: "written c2 = written c @ [rb]" "rb \<in> {OkType, ArchiveNonExistenceType}"
      by blast
    from less.hyps [OF Listen_shorter [OF continue(1,2)] c2(1)]
    obtain replies where r: "written (snd (Listen e c2)) = written c2 @ replies"
       "set replies \<subseteq> {OkType, ArchiveNonExistenceType, ErrorType}"
       "length (fst (Listen e c2)) \<le> length replies"
       "length replies \<le> length (fst (Listen e c2)) + 1"
      by blast
    have "written (snd (Listen e c)) = written c @ (rb # replies)"
      using r(1) rb(1) continue by (simp add: Listen_continue)
    moreover have "set (rb # replies) \<subseteq> {OkType, ArchiveNonExistenceType, ErrorType}"
      using r(2) rb(2) by auto
    moreover have "length (fst (Listen e c)) \<le> length (rb # replies)"
       "length (rb # replies) \<le> length (fst (Listen e c)) + 1"
      using r(3,4) continue by (simp_all add: Listen_continue)
    ultimately show ?thesis by blast
  qed
qed

lemma Listen_butlast_Check:
  "list_all (\<lambda>m. fst m = CheckType) (butlast (fst (Listen e c)))"
proof (induction "length (incoming c)" arbitrary: c rule: less_induct)
  case less
  show ?case
  proof (cases rule: Listen_cases [where c = c and e = e])
    case (frame err c1)
    then show ?thesis by (simp add: Listen_Inl)
  next
    case (fail t b c1 err c2 st)
    then show ?thesis by (simp add: Listen_fail)
  next
    case (last t b c1 c2 st)
    then show ?thesis by (simp add: Listen_push_fetch)
  next
    case (continue t b c1 c2 st)
    from handleMessage_None_type [OF continue(2)] continue(3,4) have "t = CheckType" by simp
    with less [OF Listen_shorter [OF continue(1,2)]] continue
    show ?thesis by (simp add: Listen_continue)
  qed
qed


lemma message_types_distinct:
  "CheckType \<noteq> WalPushType" "CheckType \<noteq> WalFetchType" "WalPushType \<noteq> WalFetchType"
  by (simp_all add: CheckType_def WalPushType_def WalFetchType_def)

lemma Listen_single:
  assumes w: "writable c" and n: "Next c = (Inr (t, b), c1)" and t: "t \<noteq> CheckType"
  shows "fst (Listen e c) = [(t, b)] \<and>
         length (written (snd (Listen e c))) = length (written c) + 1"
proof (cases rule: Listen_cases [where c = c and e = e])
  case (frame err c1)
  with n show ?thesis by simp
next
  case (fail t' b' c1' err c2 st)
  with n have eq: "t' = t" "b' = b" "c1' = c1" by simp_all
  from w Next_keeps [OF n] have w1: "writable c1" "written c1 = written c" by simp_all
  from handleMessage_writable [OF w1(1) fail(2) [unfolded eq]] have "c2 = c1" by simp
  with fail eq w1 show ?thesis
    by (simp add: Listen_fail LoggedClose_def failAndLogError_writable)
next
  case (last t' b' c1' c2 st)
  with n have eq: "t' = t" "b' = b" "c1' = c1" by simp_all
  from w Next_keeps [OF n] have w1: "writable c1" "written c1 = written c" by simp_all
  from handleMessage_writable [OF w1(1) last(2) [unfolded eq]]
  have "length (written c2) = length (written c1) + 1" by auto
  with last eq w1 show ?thesis
    by (simp add: Listen_push_fetch LoggedClose_def)
next
  case (continue t' b' c1' c2 st)
  with n have eq: "t' = t" "b' = b" "c1' = c1" by simp_all
  from handleMessage_None_type [OF continue(2)] continue(3,4) eq t show ?thesis by simp
qed

lemma Listen_Check_continues:
  assumes w: "writable c" and n: "Next c = (Inr (CheckType, b), c1)"
    and h: "handleMessage e CheckType b c1 = (None, c2, st)"
  shows "written c2 = written c @ [OkType] \<and>
         Listen e c = ((CheckType, b) # fst (Listen e c2), snd (Listen e c2))"
proof -
  from w Next_keeps [OF n] have w1: "writable c1" "written c1 = written c" by simp_all
  from handleMessage_Check_writable [OF w1(1) h] w1 have "written c2 = written c @ [OkType]"
    by simp
  moreover from Listen_continue [OF n h] message_types_distinct
  have "Listen e c = ((CheckType, b) # fst (Listen e c2), snd (Listen e c2))" by simp
  ultimately show ?thesis by simp
qed

lemma Listen_frame_writable:
  assumes w: "writable c" and n: "Next c = (Inl err, c1)"
  shows "Listen e c = ([], c1\<lparr>written := written c @ [ErrorType], closed := True\<rparr>)"
proof -
  from w Next_keeps [OF n] have w1: "writable c1" "written c1 = written c" by simp_all
  then show ?thesis
    by (simp add: Listen_Inl [OF n] LoggedClose_def failAndLogError_writable)
qed

lemma Listen_fail_writable:
  assumes w: "writable c" and n: "Next c = (Inr (t, b), c1)"
    and h: "handleMessage e t b c1 = (Some err, c2, st)"
  shows "Listen e c = ([(t, b)], c1\<lparr>written := written c @ [ErrorType], closed := True\<rparr>)"
proof -
  from w Next_keeps [OF n] have w1: "writable c1" "written c1 = written c" by simp_all
  from handleMessage_writable [OF w1(1) h] have "c2 = c1" by simp
  with w1 show ?thesis
    by (simp add: Listen_fail [OF n h] LoggedClose_def failAndLogError_writable)
qed

lemma Listen_last_writable:
  assumes w: "writable c" and n: "Next c = (Inr (t, b), c1)"
    and h: "handleMessage e t b c1 = (None, c2, st)"
    and t: "t = WalPushType \<or> t = WalFetchType"
  shows "Listen e c = ([(t, b)], c2\<lparr>closed := True\<rparr>) \<and>
         (c2 = c1\<lparr>written := written c @ [OkType]\<rparr> \<or>
          c2 = c1\<lparr>written := written c @ [ArchiveNonExistenceType]\<rparr>)"
proof -
  from w Next_keeps [OF n] have w1: "writable c1" "written c1 = written c" by simp_all
  from handleMessage_writable [OF w1(1) h] w1(2)
  have "c2 = c1\<lparr>written := written c @ [OkType]\<rparr> \<or>
        c2 = c1\<lparr>written := written c @ [ArchiveNonExistenceType]\<rparr>" by simp
  then show ?thesis
    by (simp add: Listen_push_fetch [OF n h t] LoggedClose_def)
qed

text \<open>
  C5. The claim: on every connection the worker reads exactly one message, writes
  exactly one reply byte and closes, for every message type, \<open>Check\<close> included. The loop
  of \<open>Listen\<close> returns after a push, after a fetch and after a failure only: on a
  connection that carries two \<open>Check\<close> messages it reads both, answers each with \<open>OK\<close>,
  and writes \<open>Error\<close> when the stream ends, three reply bytes in all.
\<close>

theorem Listen_two_checks_counterexample:
  "Listen example_env
     \<lparr>incoming = [0x43, 0, 3, 0x43, 0, 3], written = [], writable = True, closed = False\<rparr> =
   ([(CheckType, []), (CheckType, [])],
    \<lparr>incoming = [], written = [OkType, OkType, ErrorType], writable = True, closed = True\<rparr>)"
proof -
  let ?st = "\<lparr>config = \<lparr>AliveChecks = True, StatusCacheTTL = 900, AliveCheckTimeout = 30,
                CheckWrite = True, AliveCheckWriteBytes = 1048576\<rparr>,
             primary = ''default'', failovers = [''fo1'']\<rparr>"
  have h: "handleMessage example_env CheckType [] \<lparr>incoming = i, written = w, writable = True, closed = False\<rparr> =
      (None, \<lparr>incoming = i, written = w @ [OkType], writable = True, closed = False\<rparr>, Some ?st)"
    for i w
    by (simp add: handleMessage_def ConfigureMultiStorage_def example_env_def
        GetBoolSettingDefault_def NewStorage_def zeroConfig_def NewMessageHandler_def
        Handle_def Check_Handle_def reply_def Write_def ToBytes_def)
  have n1: "Next \<lparr>incoming = [0x43, 0, 3, 0x43, 0, 3], written = [], writable = True, closed = False\<rparr> =
      (Inr (CheckType, []), \<lparr>incoming = [0x43, 0, 3], written = [], writable = True, closed = False\<rparr>)"
    by (simp add: Next_def ReadFull_def be_uint16_def CheckType_def)
  have n2: "Next \<lparr>incoming = [0x43, 0, 3], written = [OkType], writable = True, closed = False\<rparr> =
      (Inr (CheckType, []), \<lparr>incoming = [], written = [OkType], writable = True, closed = False\<rparr>)"
    by (simp add: Next_def ReadFull_def be_uint16_def CheckType_def)
  have n3: "Next \<lparr>incoming = [], written = [OkType, OkType], writable = True, closed = False\<rparr> =
      (Inl FailedReadParams, \<lparr>incoming = [], written = [OkType, OkType], writable = True, closed = False\<rparr>)"
    by (simp add: Next_def ReadFull_def)
  have l3: "Listen example_env \<lparr>incoming = [], written = [OkType, OkType], writable = True, closed = False\<rparr> =
      ([], \<lparr>incoming = [], written = [OkType, OkType, ErrorType], writable = True, closed = True\<rparr>)"
    by (simp add: Listen_Inl [OF n3] LoggedClose_def failAndLogError_def Write_def ToBytes_def)
  have l2: "Listen example_env \<lparr>incoming = [0x43, 0, 3], written = [OkType], writable = True, closed = False\<rparr> =
      ([(CheckType, [])], \<lparr>incoming = [], written = [OkType, OkType, ErrorType], writable = True, closed = True\<rparr>)"
    using Listen_continue [OF n2 h] message_types_distinct l3 by simp
  show ?thesis
    using Listen_continue [OF n1 h] message_types_distinct l2 by simp
qed

text \<open>
  C5, as the code has it. On a connection that accepts writes, the worker always closes
  the connection, and what it does is fixed by the first frame and its handling:
  \<^item> a broken frame or the end of the stream: no message is read, the one byte \<open>Error\<close> is
    written, and the worker stops;
  \<^item> a message whose handling fails, a \<open>Check\<close> as much as any other: nothing but the
    one byte \<open>Error\<close> is written for it, and the worker stops with this message;
  \<^item> a push or a fetch handled without error: the handler has written the one byte \<open>OK\<close>
    or \<open>ArchiveNonExistence\<close>, and the worker stops with this message;
  \<^item> a \<open>Check\<close> handled without error: the handler has written the one byte \<open>OK\<close>, and
    the worker goes on with the next frame of the same connection.

  So every message read gets one reply byte (\<open>OK\<close>, \<open>ArchiveNonExistence\<close> or \<open>Error\<close>),
  the frame that ends the loop without a message gets one \<open>Error\<close> byte more, every
  message but the last is a \<open>Check\<close>, and a first message of any other type is the only
  one read and gets exactly one reply byte.
\<close>

theorem Listen_discipline:
  assumes "writable c"
  shows "closed (snd (Listen e c))
    \<and> (\<exists>replies. written (snd (Listen e c)) = written c @ replies \<and>
          set replies \<subseteq> {OkType, ArchiveNonExistenceType, ErrorType} \<and>
          length (fst (Listen e c)) \<le> length replies \<and>
          length replies \<le> length (fst (Listen e c)) + 1)
    \<and> list_all (\<lambda>m. fst m = CheckType) (butlast (fst (Listen e c)))
    \<and> (\<forall>t b c1. Next c = (Inr (t, b), c1) \<and> t \<noteq> CheckType \<longrightarrow>
          fst (Listen e c) = [(t, b)] \<and>
          length (written (snd (Listen e c))) = length (written c) + 1)
    \<and> (\<forall>err c1. Next c = (Inl err, c1) \<longrightarrow>
          Listen e c = ([], c1\<lparr>written := written c @ [ErrorType], closed := True\<rparr>))
    \<and> (\<forall>t b c1 err c2 st. Next c = (Inr (t, b), c1) \<and>
          handleMessage e t b c1 = (Some err, c2, st) \<longrightarrow>
          Listen e c = ([(t, b)], c1\<lparr>written := written c @ [ErrorType], closed := True\<rparr>))
    \<and> (\<forall>t b c1 c2 st. Next c = (Inr (t, b), c1) \<and>
          handleMessage e t b c1 = (None, c2, st) \<and> (t = WalPushType \<or> t = WalFetchType) \<longrightarrow>
          Listen e c = ([(t, b)], c2\<lparr>closed := True\<rparr>) \<and>
          (c2 = c1\<lparr>written := written c @ [OkType]\<rparr> \<or>
           c2 = c1\<lparr>written := written c @ [ArchiveNonExistenceType]\<rparr>))
    \<and> (\<forall>b c1 c2 st. Next c = (Inr (CheckType, b), c1) \<and>
          handleMessage e CheckType b c1 = (None, c2, st) \<longrightarrow>
          c2 = c1\<lparr>written := written c @ [OkType]\<rparr> \<and>
          Listen e c = ((CheckType, b) # fst (Listen e c2), snd (Listen e c2)))"
proof -
  have single: "fst (Listen e c) = [(t, b)] \<and>
      length (written (snd (Listen e c))) = length (written c) + 1"
    if "Next c = (Inr (t, b), c1) \<and> t \<noteq> CheckType" for t b c1
    using Listen_single [OF assms, of t b c1 e] that by simp
  have fail: "Listen e c = ([(t, b)], c1\<lparr>written := written c @ [ErrorType], closed := True\<rparr>)"
    if "Next c = (Inr (t, b), c1) \<and> handleMessage e t b c1 = (Some err, c2, st)"
    for t b c1 err c2 st
    using Listen_fail_writable [OF assms, of t b c1 e err c2 st] that by simp
  have last: "Listen e c = ([(t, b)], c2\<lparr>closed := True\<rparr>) \<and>
          (c2 = c1\<lparr>written := written c @ [OkType]\<rparr> \<or>
           c2 = c1\<lparr>written := written c @ [ArchiveNonExistenceType]\<rparr>)"
    if "Next c = (Inr (t, b), c1) \<and>
          handleMessage e t b c1 = (None, c2, st) \<and> (t = WalPushType \<or> t = WalFetchType)"
    for t b c1 c2 st
    using Listen_last_writable [OF assms, of t b c1 e c2 st] that by simp
  have cont: "c2 = c1\<lparr>written := written c @ [OkType]\<rparr> \<and>
      Listen e c = ((CheckType, b) # fst (Listen e c2), snd (Listen e c2))"
    if "Next c = (Inr (CheckType, b), c1) \<and> handleMessage e CheckType b c1 = (None, c2, st)"
    for b c1 c2 st
  proof -
    from that have n: "Next c = (Inr (CheckType, b), c1)"
      and h: "handleMessage e CheckType b c1 = (None, c2, st)" by simp_all
    from assms Next_keeps [OF n] have w1: "writable c1" "written c1 = written c" by simp_all
    from handleMessage_Check_writable [OF w1(1) h] w1(2)
    have "c2 = c1\<lparr>written := written c @ [OkType]\<rparr>" by simp
    with Listen_Check_continues [OF assms n h] show ?thesis by simp
  qed
  have p2: "\<exists>replies. written (snd (Listen e c)) = written c @ replies \<and>
          set replies \<subseteq> {OkType, ArchiveNonExistenceType, ErrorType} \<and>
          length (fst (Listen e c)) \<le> length replies \<and>
          length replies \<le> length (fst (Listen e c)) + 1"
    by (rule Listen_replies [OF assms])
  have p4: "\<forall>t b c1. Next c = (Inr (t, b), c1) \<and> t \<noteq> CheckType \<longrightarrow>
          fst (Listen e c) = [(t, b)] \<and>
          length (written (snd (Listen e c))) = length (written c) + 1"
    using single by blast
  have p5: "\<forall>err c1. Next c = (Inl err, c1) \<longrightarrow>
          Listen e c = ([], c1\<lparr>written := written c @ [ErrorType], closed := True\<rparr>)"
    using Listen_frame_writable [OF assms] by blast
  have p6: "\<forall>t b c1 err c2 st. Next c = (Inr (t, b), c1) \<and>
          handleMessage e t b c1 = (Some err, c2, st) \<longrightarrow>
          Listen e c = ([(t, b)], c1\<lparr>written := written c @ [ErrorType], closed := True\<rparr>)"
    using fail by blast
  have p7: "\<forall>t b c1 c2 st. Next c = (Inr (t, b), c1) \<and>
          handleMessage e t b c1 = (None, c2, st) \<and> (t = WalPushType \<or> t = WalFetchType) \<longrightarrow>
          Listen e c = ([(t, b)], c2\<lparr>closed := True\<rparr>) \<and>
          (c2 = c1\<lparr>written := written c @ [OkType]\<rparr> \<or>
           c2 = c1\<lparr>written := written c @ [ArchiveNonExistenceType]\<rparr>)"
    using last by blast
  have p8: "\<forall>b c1 c2 st. Next c = (Inr (CheckType, b), c1) \<and>
          handleMessage e CheckType b c1 = (None, c2, st) \<longrightarrow>
          c2 = c1\<lparr>written := written c @ [OkType]\<rparr> \<and>
          Listen e c = ((CheckType, b) # fst (Listen e c2), snd (Listen e c2))"
    using cont by blast
  from Listen_closed p2 Listen_butlast_Check p4 p5 p6 p7 p8
  show ?thesis by (intro conjI)
qed

text \<open>
  On the example configuration: a fetch of a segment that no storage holds is the one
  message of its connection and is answered with one byte; a message of a type the
  daemon does not know is answered with \<open>Error\<close> alone, and the connection closed.
\<close>

theorem Listen_discipline_witness:
  "writable \<lparr>incoming = [0x47, 0, 6, 0x61, 0, 0x62], written = [], writable = True, closed = False\<rparr>
   \<and> closed (snd (Listen example_env
        \<lparr>incoming = [0x47, 0, 6, 0x61, 0, 0x62], written = [], writable = True, closed = False\<rparr>))
   \<and> fst (Listen example_env
        \<lparr>incoming = [0x47, 0, 6, 0x61, 0, 0x62], written = [], writable = True, closed = False\<rparr>)
       = [(0x47, [0x61, 0, 0x62])]
   \<and> length (written (snd (Listen example_env
        \<lparr>incoming = [0x47, 0, 6, 0x61, 0, 0x62], written = [], writable = True, closed = False\<rparr>))) = 1
   \<and> Listen example_env
        \<lparr>incoming = [0x58, 0, 3, 0x43, 0, 3], written = [], writable = True, closed = False\<rparr> =
       ([(0x58, [])],
        \<lparr>incoming = [0x43, 0, 3], written = [ErrorType], writable = True, closed = True\<rparr>)"
proof -
  let ?c = "\<lparr>incoming = [0x47, 0, 6, 0x61, 0, 0x62], written = [], writable = True, closed = False\<rparr>"
  have w: "writable ?c" by simp
  have n: "Next ?c = (Inr (0x47, [0x61, 0, 0x62]),
      \<lparr>incoming = [], written = [], writable = True, closed = False\<rparr>)"
    by (simp add: Next_def ReadFull_def be_uint16_def)
  have t: "(0x47 :: byte) \<noteq> CheckType" by (simp add: CheckType_def)
  note d = Listen_discipline [OF w, of example_env]
  from d have cl: "closed (snd (Listen example_env ?c))" by (rule conjunct1)
  from d [THEN conjunct2, THEN conjunct2, THEN conjunct2, THEN conjunct1] n t
  have one: "fst (Listen example_env ?c) = [(0x47, [0x61, 0, 0x62])] \<and>
        length (written (snd (Listen example_env ?c))) = length (written ?c) + 1"
    by blast
  let ?u = "\<lparr>incoming = [0x58, 0, 3, 0x43, 0, 3], written = [], writable = True, closed = False\<rparr>"
  let ?u1 = "\<lparr>incoming = [0x43, 0, 3], written = [], writable = True, closed = False\<rparr>"
  let ?st = "\<lparr>config = \<lparr>AliveChecks = True, StatusCacheTTL = 900, AliveCheckTimeout = 30,
                CheckWrite = True, AliveCheckWriteBytes = 1048576\<rparr>,
             primary = ''default'', failovers = [''fo1'']\<rparr>"
  have wu: "writable ?u" by simp
  have nu: "Next ?u = (Inr (0x58, []), ?u1)"
    by (simp add: Next_def ReadFull_def be_uint16_def)
  have hu: "handleMessage example_env 0x58 [] ?u1 = (Some (UnexpectedMessageType 0x58), ?u1, Some ?st)"
    by (simp add: handleMessage_def ConfigureMultiStorage_def example_env_def
        GetBoolSettingDefault_def NewStorage_def zeroConfig_def NewMessageHandler_def
        CheckType_def WalPushType_def WalFetchType_def)
  from Listen_discipline [OF wu, of example_env, THEN conjunct2, THEN conjunct2,
      THEN conjunct2, THEN conjunct2, THEN conjunct2, THEN conjunct1] nu hu
  have "Listen example_env ?u = ([(0x58, [])], ?u1\<lparr>written := written ?u @ [ErrorType], closed := True\<rparr>)"
    by blast
  then have un: "Listen example_env ?u =
      ([(0x58, [])], \<lparr>incoming = [0x43, 0, 3], written = [ErrorType], writable = True, closed = True\<rparr>)"
    by simp
  from cl w one un show ?thesis by simp
qed

text \<open>
  C8. A \<open>WalFetch\<close> request that reaches the fetch (storage configured, reader prepared,
  two arguments, \<open>PGDATA\<close> set) on a connection that accepts writes: when the fetch fails
  with \<open>ArchiveNonExistenceError\<close> the handler writes the \<open>ArchiveNonExistence\<close> byte and
  returns no error; on any other failure of the fetch the handler returns an error and
  the worker writes the \<open>Error\<close> byte. Either way it is the only reply, and the
  connection is closed.
\<close>

theorem WalFetch_missing_segment_reply:
  assumes "writable c"
    and "Next c = (Inr (WalFetchType, body), c1)"
    and "ConfigureMultiStorage e True = Inr st"
    and "PrepareMultiStorageFolderReader e st = None"
    and "BytesToArgs e body = Inr [walFileName, location]"
    and "PgDataSetting e = Some pgdata"
    and "HandleWALFetch e st walFileName (path_Join [pgdata, location]) = Some err"
  shows "(fst (handleMessage e WalFetchType body c1) = None) = (err = ArchiveNonExistenceError)
    \<and> Listen e c = ([(WalFetchType, body)],
         c1\<lparr>written := written c @
               [if err = ArchiveNonExistenceError then ArchiveNonExistenceType else ErrorType],
            closed := True\<rparr>)"
proof -
  from assms(1) Next_keeps [OF assms(2)] have w1: "writable c1" "written c1 = written c"
    by simp_all
  have nh: "NewMessageHandler e WalFetchType st = Inr (Some (WalFetchMessageHandler st))"
    using assms(4) message_types_distinct by (simp add: NewMessageHandler_def)
  show ?thesis
  proof (cases "err = ArchiveNonExistenceError")
    case True
    have h: "handleMessage e WalFetchType body c1 =
        (None, c1\<lparr>written := written c @ [ArchiveNonExistenceType]\<rparr>, Some st)"
      using assms(3,5,6,7) nh w1 True
      by (simp add: handleMessage_def Handle_def WalFetch_Handle_def getFullPath_def
          reply_writable)
    from Listen_push_fetch [OF assms(2) h] True h show ?thesis
      by (simp add: LoggedClose_def)
  next
    case False
    have h: "handleMessage e WalFetchType body c1 =
        (Some (Wrapped ''handle message'' (Wrapped ''WAL fetch failed'' err)), c1, Some st)"
      using assms(3,5,6,7) nh w1 False
      by (simp add: handleMessage_def Handle_def WalFetch_Handle_def getFullPath_def
          split: error.splits)
    from Listen_fail [OF assms(2) h] False h w1 show ?thesis
      by (simp add: LoggedClose_def failAndLogError_writable)
  qed
qed

lemma string_of_bytes_ab: "string_of_bytes [0x61] = ''a''" "string_of_bytes [0x62] = ''b''"
  by (simp_all add: string_of_bytes_def char_of_def bit_0)

theorem WalFetch_missing_segment_reply_witness:
  "Listen example_env
     \<lparr>incoming = [0x47, 0, 6, 0x61, 0, 0x62], written = [], writable = True, closed = False\<rparr> =
     ([(WalFetchType, [0x61, 0, 0x62])],
      \<lparr>incoming = [], written = [ArchiveNonExistenceType], writable = True, closed = True\<rparr>)
   \<and> Listen (example_env\<lparr>HandleWALFetch := (\<lambda>st walFileName fullPath. Some (External ''timeout''))\<rparr>)
     \<lparr>incoming = [0x47, 0, 6, 0x61, 0, 0x62], written = [], writable = True, closed = False\<rparr> =
     ([(WalFetchType, [0x61, 0, 0x62])],
      \<lparr>incoming = [], written = [ErrorType], writable = True, closed = True\<rparr>)"
proof -
  let ?c = "\<lparr>incoming = [0x47, 0, 6, 0x61, 0, 0x62], written = [], writable = True, closed = False\<rparr>"
  let ?c1 = "\<lparr>incoming = [], written = [], writable = True, closed = False\<rparr>"
  let ?st = "\<lparr>config = \<lparr>AliveChecks = True, StatusCacheTTL = 900, AliveCheckTimeout = 30,
                CheckWrite = True, AliveCheckWriteBytes = 1048576\<rparr>,
             primary = ''default'', failovers = [''fo1'']\<rparr>"
  let ?e2 = "example_env\<lparr>HandleWALFetch := (\<lambda>st walFileName fullPath. Some (External ''timeout''))\<rparr>"
  have w: "writable ?c" by simp
  have n: "Next ?c = (Inr (WalFetchType, [0x61, 0, 0x62]), ?c1)"
    by (simp add: Next_def ReadFull_def be_uint16_def WalFetchType_def)
  have cfg: "ConfigureMultiStorage example_env True = Inr ?st"
    "ConfigureMultiStorage ?e2 True = Inr ?st"
    by (simp_all add: ConfigureMultiStorage_def example_env_def GetBoolSettingDefault_def
        NewStorage_def zeroConfig_def)
  have rd: "PrepareMultiStorageFolderReader example_env ?st = None"
    "PrepareMultiStorageFolderReader ?e2 ?st = None"
    by (simp_all add: example_env_def)
  have args: "BytesToArgs example_env [0x61, 0, 0x62] = Inr [''a'', ''b'']"
    "BytesToArgs ?e2 [0x61, 0, 0x62] = Inr [''a'', ''b'']"
    by (simp_all add: example_env_def BytesToArgs_nul_def string_of_bytes_ab)
  have pg: "PgDataSetting example_env = Some ''/pgdata''" "PgDataSetting ?e2 = Some ''/pgdata''"
    by (simp_all add: example_env_def)
  have f1: "HandleWALFetch example_env ?st ''a'' (path_Join [''/pgdata'', ''b'']) =
      Some ArchiveNonExistenceError"
    by (simp add: example_env_def)
  have f2: "HandleWALFetch ?e2 ?st ''a'' (path_Join [''/pgdata'', ''b'']) =
      Some (External ''timeout'')"
    by simp
  from WalFetch_missing_segment_reply [OF w n cfg(1) rd(1) args(1) pg(1) f1]
    WalFetch_missing_segment_reply [OF w n cfg(2) rd(2) args(2) pg(2) f2]
  show ?thesis by simp
qed

subsection \<open>The status cache and its file\<close>

lemma appendKeys_known:
  "list_all (\<lambda>n. uk n \<noteq> None) names \<Longrightarrow>
     appendKeys uk names keys = Inr (keys @ map (\<lambda>n. the (uk n)) names)"
  by (induction names arbitrary: keys) auto

text \<open>
  C3. The claim: for \<open>n\<close> configured names \<open>correspondingKeys\<close> returns exactly \<open>n\<close> keys,
  with no leading empty entries. The code makes the slice with length \<open>n\<close> and appends
  to it: it returns \<open>n\<close> zero keys followed by the \<open>n\<close> keys of the names, \<open>2n\<close> entries.
\<close>

theorem correspondingKeys_leading_zero_keys:
  assumes "list_all (\<lambda>n. usedKeys c n \<noteq> None) names"
  shows "correspondingKeys c names =
           Inr (replicate (length names) zeroKey @ map (\<lambda>n. the (usedKeys c n)) names)"
  using appendKeys_known [OF assms] by (simp add: correspondingKeys_def)

theorem correspondingKeys_leading_zero_keys_witness:
  "correspondingKeys example_cache [''default''] = Inr [zeroKey, K_default]
   \<and> correspondingKeys example_cache [''fo1'', ''default''] =
       Inr [zeroKey, zeroKey, K_fo1, K_default]"
  using correspondingKeys_leading_zero_keys [of example_cache "[''default'']"]
    correspondingKeys_leading_zero_keys [of example_cache "[''fo1'', ''default'']"]
  by (simp add: example_cache_def)


lemma isRelevant_zeroKey:
  "ss zeroKey = None \<Longrightarrow> n \<noteq> 0 \<Longrightarrow> isRelevant t now ss (replicate n zeroKey @ keys) = False"
  by (cases n) (simp_all add: isRelevant_def)

text \<open>
  C2. The claim: when every requested key has a relevant fact in memory, \<open>Read\<close> returns
  without reading the file. The keys \<open>Read\<close> tests are those of \<open>correspondingKeys\<close>, zero
  keys first; unless the memory holds a fact for the zero key, \<open>isRelevant\<close> is false for
  every call with at least one name, and \<open>Read\<close> reads the file and merges it into the
  memory, however fresh the facts of the requested keys are.
\<close>

theorem Read_reads_file_whenever_names_given:
  assumes "storageNames \<noteq> []"
    and "list_all (\<lambda>n. usedKeys c n \<noteq> None) storageNames"
    and "shMem c zeroKey = None"
    and "shFileUsed c"
  shows "snd (snd (Read r c fs now storageNames)) = snd (SharedFile_read r fs)
    \<and> shMem (fst (snd (Read r c fs now storageNames))) =
        mergeByRelevance (shMem c)
          (case fst (SharedFile_read r fs) of Inl err \<Rightarrow> Map.empty | Inr m \<Rightarrow> m)"
  using assms isRelevant_zeroKey [of "shMem c" "length storageNames" "ttl c" now]
  by (simp add: Read_def correspondingKeys_def appendKeys_known Let_def split: prod.splits)

text \<open>
  The early return of \<open>Read\<close>, taken when \<open>isRelevant\<close> holds of the keys (with no name
  given, for one): the whole memory is reported as relevant, and the file is left alone.
\<close>

lemma Read_early_return:
  "correspondingKeys c storageNames = Inr keys \<Longrightarrow> isRelevant (ttl c) now (shMem c) keys \<Longrightarrow>
     Read r c fs now storageNames = (Inr (aliveMap r (shMem c), Map.empty), c, fs)"
  by (simp add: Read_def)

lemma ParseKey_last_examples:
  "ParseKey_last ''default#h1'' = K_default" "ParseKey_last ''fo1#h2'' = K_fo1"
  by (simp_all add: ParseKey_last_def K_default_def K_fo1_def)

lemma Key_String_examples:
  "Key_String K_default = ''default#h1''" "Key_String K_fo1 = ''fo1#h2''"
  by (simp_all add: Key_String_def K_default_def K_fo1_def)

lemma example_keys_distinct:
  "K_default \<noteq> K_fo1" "K_default \<noteq> zeroKey" "K_fo1 \<noteq> zeroKey"
  by (simp_all add: K_default_def K_fo1_def zeroKey_def)

lemma read_F:
  "SharedFile_read example_rt (example_fs (Some ''{F}'')) =
     (Inr [K_fo1 \<mapsto> status_fo1], (example_fs (Some ''{F}''))\<lparr>reads := 1\<rparr>)"
  by (simp add: SharedFile_read_def example_fs_def example_rt_def example_Unmarshal_def
      rekey_def ParseKey_last_examples)

theorem Read_reads_file_whenever_names_given_witness:
  "isRelevant 60 1010 [K_default \<mapsto> status_default] [K_default]
   \<and> reads (snd (snd (Read example_rt (example_cache\<lparr>shMem := [K_default \<mapsto> status_default]\<rparr>)
        (example_fs (Some ''{F}'')) 1010 [''default'']))) = 1
   \<and> shMem (fst (snd (Read example_rt (example_cache\<lparr>shMem := [K_default \<mapsto> status_default]\<rparr>)
        (example_fs (Some ''{F}'')) 1010 [''default'']))) K_fo1 = Some status_fo1"
proof -
  let ?c = "example_cache\<lparr>shMem := [K_default \<mapsto> status_default]\<rparr>"
  have a: "[''default''] \<noteq> []" "list_all (\<lambda>n. usedKeys ?c n \<noteq> None) [''default'']"
    "shMem ?c zeroKey = None" "shFileUsed ?c"
    using example_keys_distinct by (simp_all add: example_cache_def)
  have rel: "isRelevant 60 1010 [K_default \<mapsto> status_default] [K_default]"
    by (simp add: isRelevant_def relevant_def status_default_def)
  from Read_reads_file_whenever_names_given [OF a, of example_rt "example_fs (Some ''{F}'')" 1010]
    rel example_keys_distinct
  show ?thesis by (simp add: read_F mergeByRelevance_def)
qed


lemma read_D:
  "SharedFile_read example_rt (example_fs (Some ''{D}'')) =
     (Inr [K_default \<mapsto> status_default], (example_fs (Some ''{D}''))\<lparr>reads := 1\<rparr>)"
  by (simp add: SharedFile_read_def example_fs_def example_rt_def example_Unmarshal_def
      rekey_def ParseKey_last_examples)

lemma apply_example:
  "ApplyOperationResult example_rt example_cache (example_fs (Some ''{F}'')) 1000 ''default'' True 1 =
     (example_cache\<lparr>shMem := [K_default \<mapsto> status_default]\<rparr>, example_fs (Some ''{D}''))"
proof -
  have k: "find (\<lambda>k. Name k = ''default'')
      (range_usedKeys example_rt (usedKeys example_cache)) = Some K_default"
    by (simp add: example_rt_def example_cache_def K_default_def)
  have st: "applyOperationResult example_rt None True 1 1000 = status_default"
    by (simp add: example_rt_def accumulate_weight_def status_default_def)
  have m: "shMem example_cache = Map.empty" "shFileUsed example_cache"
    "shFile_Updated example_cache = 0" "shFileFlushTimeout example_cache = 300"
    by (simp_all add: example_cache_def)
  have w: "SharedFile_write example_rt [K_default \<mapsto> status_default] (example_fs (Some ''{F}'')) =
      (None, example_fs (Some ''{D}''))"
    using example_keys_distinct
    by (simp add: SharedFile_write_def example_rt_def example_fs_def rekey_def
        Key_String_examples example_Marshal_def file_Truncate_def file_Write_def)
  show ?thesis
    by (simp add: ApplyOperationResult_def k m st w)
qed

text \<open>
  C1. The claim: whatever writes the file writes a merge of the file with the memory, so
  a key of the file is still there after the write. \<open>Flush\<close> reads and merges before it
  writes; \<open>ApplyOperationResult\<close> writes \<open>c.shMem.Statuses\<close> as it is. With the entry of
  \<open>fo1\<close> in the file and an empty memory, an operation result for \<open>default\<close> leaves the
  file with the entry of \<open>default\<close> alone.
\<close>

theorem ApplyOperationResult_drops_file_entry:
  "fst (SharedFile_read example_rt (example_fs (Some ''{F}''))) = Inr [K_fo1 \<mapsto> status_fo1]
   \<and> fst (SharedFile_read example_rt
        (snd (ApplyOperationResult example_rt example_cache (example_fs (Some ''{F}''))
           1000 ''default'' True 1))) = Inr [K_default \<mapsto> status_default]
   \<and> [K_default \<mapsto> status_default] K_fo1 = None"
  using example_keys_distinct by (simp add: read_F read_D apply_example)


lemma fold_rekey_other:
  "y \<notin> f ` (set xs \<inter> dom m) \<Longrightarrow>
     fold (\<lambda>k out. case m k of None \<Rightarrow> out | Some stat \<Rightarrow> out(f k \<mapsto> stat)) xs acc y = acc y"
proof (induction xs arbitrary: acc)
  case Nil
  then show ?case by simp
next
  case (Cons x xs)
  from Cons.prems have y: "y \<notin> f ` (set xs \<inter> dom m)" by auto
  show ?case
  proof (cases "m x")
    case None
    with Cons.IH [OF y] show ?thesis by simp
  next
    case (Some stat)
    with Cons.prems have "f x \<noteq> y" by auto
    with Cons.IH [OF y] Some show ?thesis by simp
  qed
qed

lemma fold_rekey_lookup:
  "inj_on f (set xs \<inter> dom m) \<Longrightarrow> k \<in> set xs \<Longrightarrow> m k = Some v \<Longrightarrow>
     fold (\<lambda>k out. case m k of None \<Rightarrow> out | Some stat \<Rightarrow> out(f k \<mapsto> stat)) xs acc (f k) = Some v"
proof (induction xs arbitrary: acc)
  case Nil
  then show ?case by simp
next
  case (Cons x xs)
  have inj: "inj_on f (set xs \<inter> dom m)"
    using Cons.prems(1) by (rule inj_on_subset) auto
  show ?case
  proof (cases "k \<in> set xs")
    case True
    from Cons.IH [OF inj True Cons.prems(3)] show ?thesis by simp
  next
    case False
    with Cons.prems(2) have kx: "k = x" by simp
    have "f k \<notin> f ` (set xs \<inter> dom m)"
    proof
      assume "f k \<in> f ` (set xs \<inter> dom m)"
      then obtain k' where "f k = f k'" "k' \<in> set xs \<inter> dom m" by (rule imageE)
      then have k': "k' \<in> set xs" "k' \<in> dom m" "f k' = f k" by simp_all
      with Cons.prems(1,3) kx have "k' = k"
        by (auto simp add: inj_on_def)
      with k' False show False by simp
    qed
    from fold_rekey_other [OF this] kx Cons.prems(3) show ?thesis by simp
  qed
qed

lemma rekey_lookup:
  assumes "inj_on f (dom m)" and "dom m \<subseteq> set order" and "m k = Some v"
  shows "rekey f m order (f k) = Some v"
proof -
  have "inj_on f (set order \<inter> dom m)" using assms(1) by (rule inj_on_subset) auto
  moreover have "k \<in> set order" using assms(2,3) by auto
  ultimately show ?thesis unfolding rekey_def using assms(3) by (rule fold_rekey_lookup)
qed

lemma rekey_other: "y \<notin> f ` dom m \<Longrightarrow> rekey f m order y = None"
  unfolding rekey_def by (subst fold_rekey_other) auto

lemma rekey_inverse:
  assumes inv: "\<forall>k \<in> dom m. g (f k) = k"
    and o1: "dom m \<subseteq> set order1"
    and o2: "dom (rekey f m order1) \<subseteq> set order2"
  shows "rekey g (rekey f m order1) order2 = m"
proof (rule ext)
  fix k
  let ?d = "rekey f m order1"
  have injf: "inj_on f (dom m)" using inv by (metis inj_on_inverseI)
  have d_f: "?d (f k) = Some v" if "m k = Some v" for k v
    using rekey_lookup [OF injf o1 that] .
  have dom_d: "dom ?d = f ` dom m"
  proof
    show "dom ?d \<subseteq> f ` dom m"
    proof
      fix y assume "y \<in> dom ?d"
      then have "?d y \<noteq> None" by auto
      with rekey_other [of y f m order1] show "y \<in> f ` dom m" by blast
    qed
    show "f ` dom m \<subseteq> dom ?d" using d_f by (auto simp add: dom_def)
  qed
  have injg: "inj_on g (dom ?d)"
    unfolding dom_d using inv by (auto simp add: inj_on_def)
  show "rekey g ?d order2 k = m k"
  proof (cases "m k")
    case (Some v)
    from rekey_lookup [OF injg o2 d_f [OF Some]] inv Some show ?thesis by (auto simp add: dom_def)
  next
    case None
    have "k \<notin> g ` dom ?d"
    proof
      assume "k \<in> g ` dom ?d"
      then obtain k' where "k' \<in> dom m" "k = g (f k')" unfolding dom_d by auto
      with inv have "k \<in> dom m" by simp
      with None show False by auto
    qed
    from rekey_other [OF this] None show ?thesis by simp
  qed
qed

lemma file_Write_Truncate: "file_Write (file_Truncate old (length bytes)) bytes = bytes"
  by (simp add: file_Write_def file_Truncate_def)

lemma SharedFile_write_ok:
  assumes "\<not> open_fails fs" "\<not> lock_fails fs" "\<not> truncate_fails fs" "\<not> write_fails fs"
    and "json_Marshal r (rekey Key_String m (range_statuses r m)) = Some bytes"
  shows "SharedFile_write r m fs = (None, fs\<lparr>data := Some bytes\<rparr>)"
  using assms by (simp add: SharedFile_write_def Let_def file_Write_Truncate)

text \<open>
  What \<open>write\<close> and \<open>read\<close> do between them. When no system call fails, \<open>write\<close> leaves
  the file with exactly the bytes \<open>json.Marshal\<close> returned for the new document, whatever
  the file held before (\<open>SharedFile_write_ok\<close>). If moreover \<open>ParseKey\<close> gives every key
  of the map back from its string form and \<open>json.Unmarshal\<close> gives the document back from
  these bytes, \<open>read\<close> returns the map that was written. Whether keys and codec do so is
  decided by \<open>Key.String\<close>, \<open>ParseKey\<close> and the codec, all outside these sources.
\<close>

lemma SharedFile_write_then_read:
  assumes "\<not> open_fails fs" "\<not> lock_fails fs" "\<not> read_fails fs"
    "\<not> truncate_fails fs" "\<not> write_fails fs"
    and "\<forall>k \<in> dom m. ParseKey r (Key_String k) = k"
    and "set (range_statuses r m) = dom m"
    and "json_Marshal r (rekey Key_String m (range_statuses r m)) = Some bytes"
    and "json_Unmarshal r bytes = Some (rekey Key_String m (range_statuses r m))"
    and "set (range_json r (rekey Key_String m (range_statuses r m))) =
           dom (rekey Key_String m (range_statuses r m))"
  shows "SharedFile_write r m fs = (None, fs\<lparr>data := Some bytes\<rparr>)
    \<and> fst (SharedFile_read r (snd (SharedFile_write r m fs))) = Inr m"
proof -
  have w: "SharedFile_write r m fs = (None, fs\<lparr>data := Some bytes\<rparr>)"
    using assms(1,2,4,5,8) by (rule SharedFile_write_ok)
  have "rekey (ParseKey r) (rekey Key_String m (range_statuses r m))
          (range_json r (rekey Key_String m (range_statuses r m))) = m"
    using assms(6,7,10) by (intro rekey_inverse) auto
  with assms(1,2,3,9) have "fst (SharedFile_read r (fs\<lparr>data := Some bytes\<rparr>)) = Inr m"
    by (simp add: SharedFile_read_def Let_def)
  with w show ?thesis by simp
qed

text \<open>
  The string form \<open>"<name>#<config_hash>"\<close> is split back at its last \<open>#\<close> into the key
  it came from whenever the hash holds no \<open>#\<close>, whatever the name.
\<close>

lemma ParseKey_last_Key_String:
  assumes "CHR ''#'' \<notin> set (Hash k)"
  shows "ParseKey_last (Key_String k) = k"
proof -
  from assms have t: "takeWhile (\<lambda>c. c \<noteq> CHR ''#'') (rev (Hash k) @ CHR ''#'' # rev (Name k)) =
      rev (Hash k)"
    by (subst takeWhile_append2) auto
  from assms have d: "dropWhile (\<lambda>c. c \<noteq> CHR ''#'') (rev (Hash k) @ CHR ''#'' # rev (Name k)) =
      CHR ''#'' # rev (Name k)"
    by (subst dropWhile_append2) auto
  show ?thesis
    by (simp add: ParseKey_last_def Key_String_def t d)
qed

lemma SharedFile_write_then_read_example:
  "SharedFile_write example_rt [K_default \<mapsto> status_default, K_fo1 \<mapsto> status_fo1]
      (example_fs (Some ''stale bytes of an older and longer file'')) =
     (None, example_fs (Some ''{DF}''))
   \<and> fst (SharedFile_read example_rt (snd (SharedFile_write example_rt
        [K_default \<mapsto> status_default, K_fo1 \<mapsto> status_fo1]
        (example_fs (Some ''stale bytes of an older and longer file''))))) =
       Inr [K_default \<mapsto> status_default, K_fo1 \<mapsto> status_fo1]"
proof -
  let ?m = "[K_default \<mapsto> status_default, K_fo1 \<mapsto> status_fo1]"
  let ?fs = "example_fs (Some ''stale bytes of an older and longer file'')"
  have rs: "range_statuses example_rt ?m = [K_default, K_fo1]"
    using example_keys_distinct by (simp add: example_rt_def)
  have doc: "rekey Key_String ?m (range_statuses example_rt ?m) =
      [''default#h1'' \<mapsto> status_default, ''fo1#h2'' \<mapsto> status_fo1]"
    using example_keys_distinct by (simp add: rs rekey_def Key_String_examples)
  have io: "\<not> open_fails ?fs" "\<not> lock_fails ?fs" "\<not> read_fails ?fs"
    "\<not> truncate_fails ?fs" "\<not> write_fails ?fs"
    by (simp_all add: example_fs_def)
  have keys: "\<forall>k \<in> dom ?m. ParseKey example_rt (Key_String k) = k"
    by (simp add: example_rt_def Key_String_examples ParseKey_last_examples)
  have rng: "set (range_statuses example_rt ?m) = dom ?m"
    by (auto simp add: rs)
  have enc: "json_Marshal example_rt (rekey Key_String ?m (range_statuses example_rt ?m)) =
      Some ''{DF}''"
    unfolding doc by (simp add: example_rt_def example_Marshal_def)
  have dec: "json_Unmarshal example_rt ''{DF}'' =
      Some (rekey Key_String ?m (range_statuses example_rt ?m))"
    unfolding doc by (auto simp add: example_rt_def example_Unmarshal_def fun_eq_iff)
  have rng2: "set (range_json example_rt (rekey Key_String ?m (range_statuses example_rt ?m))) =
      dom (rekey Key_String ?m (range_statuses example_rt ?m))"
    unfolding doc by (auto simp add: example_rt_def)
  note t = SharedFile_write_then_read [OF io keys rng enc dec rng2]
  from t have "SharedFile_write example_rt ?m ?fs = (None, ?fs\<lparr>data := Some ''{DF}''\<rparr>)"
    by (rule conjunct1)
  then have a: "SharedFile_write example_rt ?m ?fs = (None, example_fs (Some ''{DF}''))"
    by (simp add: example_fs_def)
  from t have b: "fst (SharedFile_read example_rt (snd (SharedFile_write example_rt ?m ?fs))) =
      Inr ?m"
    by (rule conjunct2)
  from a b show ?thesis by (rule conjI)
qed

text \<open>A file of no bytes is not a document: the example codec refuses it, and \<open>read\<close> fails.\<close>

lemma read_empty_file:
  "fst (SharedFile_read example_rt (example_fs (Some []))) =
     Inl (Wrapped ''unmarshal cache file content'' UnmarshalCacheFile)"
  by (simp add: SharedFile_read_def example_fs_def example_rt_def example_Unmarshal_def)

subsection \<open>Merging status maps\<close>









text \<open>
  No rule that looks at \<open>alive\<close> and \<open>checked_at\<close> only and keeps the winner as it is can
  be commutative: two entries that differ in \<open>operation_weight_sum\<close> alone would come out
  in the order they went in. A commutative merge has to decide between them on the sum.
\<close>

lemma mergeStatusBy_not_commutative:
  "mergeStatusBy first_wins
      \<lparr>alive = True, checked_at = 1000, operation_weight_sum = 1\<rparr>
      \<lparr>alive = True, checked_at = 1000, operation_weight_sum = 2\<rparr> \<noteq>
   mergeStatusBy first_wins
      \<lparr>alive = True, checked_at = 1000, operation_weight_sum = 2\<rparr>
      \<lparr>alive = True, checked_at = 1000, operation_weight_sum = 1\<rparr>"
  by (simp add: mergeStatusBy_def)




lemma dom_mergeByRelevance: "dom (mergeByRelevance a b) = dom a \<union> dom b"
  by (auto simp add: mergeByRelevance_def dom_def split: option.splits)



text \<open>
  \<open>Flush\<close> is the writer that merges: when the file can be read and the merged map written
  (no failing call, keys and codec that round-trip), the file then holds the merge of the memory
  with what the file held, every key of the file included.
\<close>

lemma Flush_keeps_file_entries:
  assumes "shFileUsed c"
    and "\<not> open_fails fs" "\<not> lock_fails fs" "\<not> read_fails fs"
      "\<not> truncate_fails fs" "\<not> write_fails fs"
    and "fst (SharedFile_read r fs) = Inr fileStatuses"
    and "m = mergeByRelevance (shMem c) fileStatuses"
    and "\<forall>k \<in> dom m. ParseKey r (Key_String k) = k"
    and "set (range_statuses r m) = dom m"
    and "json_Marshal r (rekey Key_String m (range_statuses r m)) = Some bytes"
    and "json_Unmarshal r bytes = Some (rekey Key_String m (range_statuses r m))"
    and "set (range_json r (rekey Key_String m (range_statuses r m))) =
           dom (rekey Key_String m (range_statuses r m))"
  shows "fst (SharedFile_read r (Flush r c fs)) = Inr m \<and> dom fileStatuses \<subseteq> dom m"
proof -
  obtain res fs' where rd: "SharedFile_read r fs = (res, fs')" by (cases "SharedFile_read r fs")
  with assms(7) have res: "res = Inr fileStatuses" by simp
  from rd have fs': "fs' = fs \<or> fs' = fs\<lparr>reads := reads fs + 1\<rparr>"
    by (auto simp add: SharedFile_read_def Let_def split: option.splits if_splits)
  then have io: "\<not> open_fails fs'" "\<not> lock_fails fs'" "\<not> read_fails fs'"
    "\<not> truncate_fails fs'" "\<not> write_fails fs'"
    using assms(2-6) by auto
  have w: "SharedFile_write r m fs' = (None, fs'\<lparr>data := Some bytes\<rparr>)"
    using io(1,2,4,5) assms(11) by (rule SharedFile_write_ok)
  have "rekey (ParseKey r) (rekey Key_String m (range_statuses r m))
          (range_json r (rekey Key_String m (range_statuses r m))) = m"
    using assms(9,10,13) by (intro rekey_inverse) auto
  with io(1,2,3) assms(12) have "fst (SharedFile_read r (fs'\<lparr>data := Some bytes\<rparr>)) = Inr m"
    by (simp add: SharedFile_read_def Let_def)
  moreover have "Flush r c fs = fs'\<lparr>data := Some bytes\<rparr>"
    using assms(1,8) rd res w by (simp add: Flush_def)
  moreover have "dom fileStatuses \<subseteq> dom m"
    using assms(8) by (simp add: dom_mergeByRelevance)
  ultimately show ?thesis by simp
qed

subsection \<open>The recursive listing\<close>

















end
